theory Spec2Isabelle
  imports Main
begin

section \<open>JavaScript values and the object heap\<close>

text \<open>
  The Backend of \<^verbatim>\<open>src/backend/Backend.js\<close> works on live JavaScript objects: the
  snapshot it stores is the very object the host passed in, \<^verbatim>\<open>setIn\<close> writes into it in
  place, and \<^verbatim>\<open>assign({}, data)\<close> makes a shallow copy. The embedding therefore keeps an
  explicit heap. A value is a primitive, a reference to a heap cell, or a function.

  Numbers are the integer-valued ones (all that truthiness and keys need here). A function
  is opaque: either the built-in \<^verbatim>\<open>Array.prototype.map\<close> or a function of the host, known by
  a number.
\<close>

type_synonym addr = nat

datatype callee = ArrayProtoMap | Host nat

datatype jsval =
    Undefined
  | Null
  | JBool bool
  | JNum int
  | JStr string
  | Ref addr
  | Fun callee

text \<open>
  A heap cell is an object of one of four kinds.
  \<^item> \<open>Obj ps\<close>: an ordinary plain object. It is extensible, its own properties \<open>ps\<close> are
    writable, enumerable, configurable data properties, and its prototype is
    \<^verbatim>\<open>Object.prototype\<close>.
  \<^item> \<open>Arr xs\<close>: an ordinary array with the elements \<open>xs\<close>, no holes and no named own
    property; its prototype is \<^verbatim>\<open>Array.prototype\<close>.
  \<^item> \<open>Locked ps\<close> and \<open>LockedArr xs\<close>: a plain object or an array with the same own
    enumerable data properties and the same prototype, that is frozen, sealed or not
    extensible, or has a property that is not writable or not configurable (the props of a
    React element in development, for one). It reads as the ordinary one; what an
    assignment or a \<^verbatim>\<open>delete\<close> does to it depends on the restriction (in strict code it
    throws where the restriction applies) and is not described.
  Objects with accessors of the host, proxies and instances of classes are not in the
  heap. The prototypes are the standard ones, as the runtime provides them. The heap is a
  list of cells, the address is the index, and a new object is appended.
\<close>

datatype cell =
    Obj "string \<rightharpoonup> jsval"
  | Arr "jsval list"
  | Locked "string \<rightharpoonup> jsval"
  | LockedArr "jsval list"

type_synonym heap = "cell list"

text \<open>
  An operation returns a value, throws, or leaves the model (\<open>Beyond\<close>: it ran into
  behaviour of the runtime or the host that the embedding does not describe, such as a call
  of a host function whose result is needed, or a read of a built-in object). Nothing is
  stated about the program where the model says \<open>Beyond\<close>.
\<close>

datatype exn = TypeError

datatype 'a outcome = Return 'a | Throw exn | Beyond

fun typeof :: "jsval \<Rightarrow> string" where
  "typeof Undefined = ''undefined''"
| "typeof Null = ''object''"
| "typeof (JBool b) = ''boolean''"
| "typeof (JNum n) = ''number''"
| "typeof (JStr s) = ''string''"
| "typeof (Ref a) = ''object''"
| "typeof (Fun f) = ''function''"

fun truthy :: "jsval \<Rightarrow> bool" where
  "truthy Undefined = False"
| "truthy Null = False"
| "truthy (JBool b) = b"
| "truthy (JNum n) = (n \<noteq> 0)"
| "truthy (JStr s) = (s \<noteq> [])"
| "truthy (Ref a) = True"
| "truthy (Fun f) = True"

text \<open>The objects among the values (a function is an object).\<close>

fun is_object :: "jsval \<Rightarrow> bool" where
  "is_object (Ref a) = True"
| "is_object (Fun f) = True"
| "is_object v = False"

text \<open>\<^verbatim>\<open>!!a\<close>.\<close>

definition to_bool :: "jsval \<Rightarrow> jsval" where
  "to_bool a = JBool (truthy a)"

subsection \<open>Property keys that are array indices\<close>

text \<open>
  A key is an array index when it is the decimal numeral of a number below \<open>2^32 - 1\<close>, with
  no leading zero.
\<close>

definition digit_chars :: "char list" where
  "digit_chars = ''0123456789''"

definition digit_val :: "char \<Rightarrow> nat" where
  "digit_val c = of_char c - 48"

definition index_of_key :: "string \<Rightarrow> nat option" where
  "index_of_key k =
     (if k = [] \<or> \<not> list_all (\<lambda>c. c \<in> set digit_chars) k then None
      else if hd k = CHR ''0'' \<and> length k \<noteq> 1 then None
      else let n = foldl (\<lambda>n c. 10 * n + digit_val c) 0 k
           in if n < 4294967295 then Some n else None)"

subsection \<open>Reading and writing a property\<close>

definition cell_at :: "heap \<Rightarrow> addr \<Rightarrow> cell" where
  "cell_at h a = (if a < length h then h ! a else Obj Map.empty)"

text \<open>
  What a cell gives for a key that no standard prototype answers: the own property of a
  plain object; the length, the element or \<^verbatim>\<open>Array.prototype.map\<close> of an array; and
  \<^verbatim>\<open>undefined\<close> where there is none.
\<close>

fun own :: "cell \<Rightarrow> string \<Rightarrow> jsval" where
  "own (Obj ps) k = (case ps k of Some v \<Rightarrow> v | None \<Rightarrow> Undefined)"
| "own (Arr xs) k =
     (if k = ''length'' then JNum (int (length xs))
      else if k = ''map'' then Fun ArrayProtoMap
      else case index_of_key k of
             Some i \<Rightarrow> if i < length xs then xs ! i else Undefined
           | None \<Rightarrow> Undefined)"
| "own (Locked ps) k = (case ps k of Some v \<Rightarrow> v | None \<Rightarrow> Undefined)"
| "own (LockedArr xs) k =
     (if k = ''length'' then JNum (int (length xs))
      else if k = ''map'' then Fun ArrayProtoMap
      else case index_of_key k of
             Some i \<Rightarrow> if i < length xs then xs ! i else Undefined
           | None \<Rightarrow> Undefined)"

text \<open>
  The names under which the standard prototypes hold a property, in any edition of the
  language from the fifth on and in the browsers (the lists may name too much, never too
  little: a key in a list is treated as answered by the prototype). \<^verbatim>\<open>Object.prototype\<close>,
  which every object and, through its wrapper, every primitive inherits from:
\<close>

definition object_proto_names :: "string list" where
  "object_proto_names =
     [''__proto__'', ''constructor'', ''hasOwnProperty'', ''isPrototypeOf'',
      ''propertyIsEnumerable'', ''toLocaleString'', ''toString'', ''valueOf'',
      ''__defineGetter__'', ''__defineSetter__'', ''__lookupGetter__'', ''__lookupSetter__'',
      ''toSource'', ''watch'', ''unwatch'']"

text \<open>\<^verbatim>\<open>Array.prototype\<close>, but for \<^verbatim>\<open>map\<close>, which \<open>own\<close> gives:\<close>

definition array_proto_names :: "string list" where
  "array_proto_names =
     [''at'', ''concat'', ''copyWithin'', ''entries'', ''every'', ''fill'', ''filter'',
      ''find'', ''findIndex'', ''findLast'', ''findLastIndex'', ''flat'', ''flatMap'',
      ''forEach'', ''includes'', ''indexOf'', ''join'', ''keys'', ''lastIndexOf'', ''pop'',
      ''push'', ''reduce'', ''reduceRight'', ''reverse'', ''shift'', ''slice'', ''some'',
      ''sort'', ''splice'', ''toReversed'', ''toSorted'', ''toSpliced'', ''unshift'',
      ''values'', ''with'', ''group'', ''groupBy'', ''groupToMap'', ''contains'',
      ''flatten'']"

text \<open>\<^verbatim>\<open>String.prototype\<close>:\<close>

definition string_proto_names :: "string list" where
  "string_proto_names =
     [''anchor'', ''at'', ''big'', ''blink'', ''bold'', ''charAt'', ''charCodeAt'',
      ''codePointAt'', ''concat'', ''contains'', ''endsWith'', ''fixed'', ''fontcolor'',
      ''fontsize'', ''includes'', ''indexOf'', ''isWellFormed'', ''italics'',
      ''lastIndexOf'', ''link'', ''localeCompare'', ''match'', ''matchAll'', ''normalize'',
      ''padEnd'', ''padStart'', ''quote'', ''repeat'', ''replace'', ''replaceAll'',
      ''search'', ''slice'', ''small'', ''split'', ''startsWith'', ''strike'', ''sub'',
      ''substr'', ''substring'', ''sup'', ''toLocaleLowerCase'', ''toLocaleUpperCase'',
      ''toLowerCase'', ''toUpperCase'', ''toWellFormed'', ''trim'', ''trimEnd'',
      ''trimLeft'', ''trimRight'', ''trimStart'']"

text \<open>\<^verbatim>\<open>Number.prototype\<close>:\<close>

definition number_proto_names :: "string list" where
  "number_proto_names = [''toExponential'', ''toFixed'', ''toPrecision'']"

text \<open>A function, its own standard properties and those of \<^verbatim>\<open>Function.prototype\<close>:\<close>

definition function_names :: "string list" where
  "function_names =
     [''apply'', ''arguments'', ''bind'', ''call'', ''caller'', ''displayName'', ''length'',
      ''name'', ''prototype'']"

text \<open>
  A key that a cell does not answer itself and that its prototype chain may answer.
\<close>

fun inherited :: "cell \<Rightarrow> string \<Rightarrow> bool" where
  "inherited (Obj ps) k = (ps k = None \<and> k \<in> set object_proto_names)"
| "inherited (Arr xs) k =
     (k \<noteq> ''length'' \<and> k \<noteq> ''map'' \<and> index_of_key k = None \<and>
      k \<in> set (array_proto_names @ object_proto_names))"
| "inherited (Locked ps) k = (ps k = None \<and> k \<in> set object_proto_names)"
| "inherited (LockedArr xs) k =
     (k \<noteq> ''length'' \<and> k \<noteq> ''map'' \<and> index_of_key k = None \<and>
      k \<in> set (array_proto_names @ object_proto_names))"

text \<open>A key that no standard prototype answers, whatever the value read.\<close>

definition plain_key :: "string \<Rightarrow> bool" where
  "plain_key k =
     (k \<notin> set (object_proto_names @ array_proto_names @ string_proto_names @
                number_proto_names @ function_names))"

definition str_prop :: "string \<Rightarrow> string \<Rightarrow> jsval" where
  "str_prop s k =
     (if k = ''length'' then JNum (int (length s))
      else case index_of_key k of
             Some i \<Rightarrow> if i < length s then JStr [s ! i] else Undefined
           | None \<Rightarrow> Undefined)"

text \<open>
  \<^verbatim>\<open>obj[attr]\<close>. A TypeError on \<^verbatim>\<open>undefined\<close> and \<^verbatim>\<open>null\<close>. On an object, what the cell
  gives, and on a string its length and characters; a key that is left to a standard
  prototype reads a built-in function or object, which is not a value of the model
  (\<open>Beyond\<close>); any other key reads \<^verbatim>\<open>undefined\<close>. A function of the host is taken to have
  no own property but the standard ones.
\<close>

fun get_prop :: "heap \<Rightarrow> jsval \<Rightarrow> string \<Rightarrow> jsval outcome" where
  "get_prop h Undefined k = Throw TypeError"
| "get_prop h Null k = Throw TypeError"
| "get_prop h (JStr s) k =
     (if k \<noteq> ''length'' \<and> index_of_key k = None \<and>
         k \<in> set (string_proto_names @ object_proto_names)
      then Beyond else Return (str_prop s k))"
| "get_prop h (Ref a) k =
     (if inherited (cell_at h a) k then Beyond else Return (own (cell_at h a) k))"
| "get_prop h (JNum n) k =
     (if k \<in> set (number_proto_names @ object_proto_names) then Beyond else Return Undefined)"
| "get_prop h (JBool b) k =
     (if k \<in> set object_proto_names then Beyond else Return Undefined)"
| "get_prop h (Fun f) k =
     (if k \<in> set (function_names @ object_proto_names) then Beyond else Return Undefined)"

text \<open>
  \<^verbatim>\<open>arr[i] = v\<close> beyond the end of an array extends it; the elements in between are holes,
  which read as \<^verbatim>\<open>undefined\<close>.
\<close>

definition arr_store :: "jsval list \<Rightarrow> nat \<Rightarrow> jsval \<Rightarrow> jsval list" where
  "arr_store xs i v =
     (if i < length xs then xs[i := v]
      else xs @ replicate (i - length xs) Undefined @ [v])"

text \<open>
  \<^verbatim>\<open>obj[attr] = v\<close> in strict code (the file starts with \<^verbatim>\<open>'use strict'\<close>).
  \<^item> On \<^verbatim>\<open>undefined\<close> and \<^verbatim>\<open>null\<close>: a TypeError.
  \<^item> On an ordinary plain object: the own property is written, also where it shadows a
    property of \<^verbatim>\<open>Object.prototype\<close>, which are all writable data properties but
    \<^verbatim>\<open>__proto__\<close>. For the key \<^verbatim>\<open>__proto__\<close>, where it is not an own property, the
    assignment calls the inherited setter: it ignores a value that is neither an object nor
    \<^verbatim>\<open>null\<close> and returns, and it replaces the prototype otherwise, which the model does
    not follow.
  \<^item> On an ordinary array: the element is written for an index; \<^verbatim>\<open>length\<close> and named
    properties are not described.
  \<^item> On a locked object or array, on a function and on a reference to no cell: not
    described.
  \<^item> On a boolean, number or string: a TypeError, but for the key \<^verbatim>\<open>__proto__\<close>, where
    the inherited setter returns without doing anything.
\<close>

fun set_prop :: "heap \<Rightarrow> jsval \<Rightarrow> string \<Rightarrow> jsval \<Rightarrow> unit outcome \<times> heap" where
  "set_prop h (Ref a) k v =
     (if a < length h then
        (case h ! a of
           Obj ps \<Rightarrow>
             (if k = ''__proto__'' \<and> ps k = None then
                (if is_object v \<or> v = Null then (Beyond, h) else (Return (), h))
              else (Return (), h[a := Obj (ps(k \<mapsto> v))]))
         | Arr xs \<Rightarrow>
             (case index_of_key k of
                Some i \<Rightarrow> (Return (), h[a := Arr (arr_store xs i v)])
              | None \<Rightarrow> (Beyond, h))
         | Locked ps \<Rightarrow> (Beyond, h)
         | LockedArr xs \<Rightarrow> (Beyond, h))
      else (Beyond, h))"
| "set_prop h (Fun f) k v = (Beyond, h)"
| "set_prop h Undefined k v = (Throw TypeError, h)"
| "set_prop h Null k v = (Throw TypeError, h)"
| "set_prop h obj k v = (if k = ''__proto__'' then (Return (), h) else (Throw TypeError, h))"

section \<open>The path accessor\<close>

text \<open>
  \<^verbatim>\<open>path.reduce(f, obj)\<close> over the keys of a path, where the callback may throw.
\<close>

fun reduce :: "(jsval \<Rightarrow> string \<Rightarrow> jsval outcome) \<Rightarrow> string list \<Rightarrow> jsval \<Rightarrow> jsval outcome" where
  "reduce f [] acc = Return acc"
| "reduce f (attr # path) acc =
     (case f acc attr of
        Return v \<Rightarrow> reduce f path v
      | Throw e \<Rightarrow> Throw e
      | Beyond \<Rightarrow> Beyond)"

text \<open>
  \<^verbatim>\<open>
  function getIn(obj, path) {
    return path.reduce((obj, attr) => {
      return obj ? obj[attr] : null;
    }, obj);
  }
  \<close>
\<close>

definition getIn :: "heap \<Rightarrow> jsval \<Rightarrow> string list \<Rightarrow> jsval outcome" where
  "getIn h obj path =
     reduce (\<lambda>obj attr. if truthy obj then get_prop h obj attr else Return Null) path obj"

text \<open>
  \<^verbatim>\<open>
  function setIn(obj, path, value) {
    path = path.slice();
    var name = path.pop();
    var child = path.reduce((obj, attr) => obj ? obj[attr] : null, obj);
    if (child === null) {
      return false;
    }
    child[name] = value;
    return true;
  }
  \<close>
  \<^verbatim>\<open>pop\<close> on an empty path gives \<^verbatim>\<open>undefined\<close>, which as a key is the string
  \<^verbatim>\<open>'undefined'\<close>.
\<close>

definition setIn :: "heap \<Rightarrow> jsval \<Rightarrow> string list \<Rightarrow> jsval \<Rightarrow> bool outcome \<times> heap" where
  "setIn h obj path v =
     (let name = (if path = [] then ''undefined'' else last path);
          path' = butlast path
      in case reduce (\<lambda>obj attr. if truthy obj then get_prop h obj attr else Return Null) path' obj of
           Return child \<Rightarrow>
             if child = Null then (Return False, h)
             else (case set_prop h child name v of
                     (Return u, h') \<Rightarrow> (Return True, h')
                   | (Throw e, h') \<Rightarrow> (Throw e, h')
                   | (Beyond, h') \<Rightarrow> (Beyond, h'))
         | Throw e \<Rightarrow> (Throw e, h)
         | Beyond \<Rightarrow> (Beyond, h))"

section \<open>The Backend\<close>

text \<open>
  The state of a \<^verbatim>\<open>Backend\<close>: its four tables (\<^verbatim>\<open>comps\<close>, a Map from identifier to
  handle; \<^verbatim>\<open>ids\<close>, a WeakMap from handle to identifier; \<^verbatim>\<open>nodes\<close>, a Map from identifier to
  snapshot; \<^verbatim>\<open>roots\<close>, a Set of identifiers), the injected \<^verbatim>\<open>reactInternals\<close>, and what the
  Backend shares with its environment: the heap, the supply behind \<^verbatim>\<open>Math.random\<close>, the
  events handed to the listeners, the console, and the host functions called.

  An entry of \<open>emitted\<close> is the event name, the payload, and the tables as a listener
  finds them when it runs. Listeners and host functions are assumed to return normally and
  not to call back into the Backend. The fields \<^verbatim>\<open>global\<close>, \<^verbatim>\<open>capabilities\<close> and
  \<^verbatim>\<open>_prevSelected\<close> touch none of the tables and are left out, with the channel wiring of
  \<^verbatim>\<open>addBridge\<close> and \<^verbatim>\<open>_makeGlobal\<close>.
\<close>

record tables =
  comps :: "jsval \<rightharpoonup> jsval"
  ids :: "jsval \<rightharpoonup> jsval"
  nodes :: "jsval \<rightharpoonup> jsval"
  roots :: "jsval set"

record adapter =
  getNativeFromReactElement :: "jsval \<Rightarrow> jsval"
  getReactElementFromNative :: "jsval \<Rightarrow> jsval"

record backend = tables +
  reactInternals :: "adapter option"
  heap :: heap
  math_random :: "nat \<Rightarrow> string"
  drawn :: nat
  emitted :: "(string \<times> jsval \<times> tables) list"
  console :: "string list"
  host_calls :: "jsval list"

text \<open>The constructor: empty tables, nothing injected.\<close>

definition init :: "heap \<Rightarrow> (nat \<Rightarrow> string) \<Rightarrow> backend" where
  "init h rnd =
     \<lparr>comps = Map.empty, ids = Map.empty, nodes = Map.empty, roots = {},
      reactInternals = None, heap = h, math_random = rnd, drawn = 0,
      emitted = [], console = [], host_calls = []\<rparr>"

subsection \<open>Sequencing\<close>

type_synonym 'a js = "backend \<Rightarrow> 'a outcome \<times> backend"

definition ret :: "'a \<Rightarrow> 'a js" where
  "ret x b = (Return x, b)"

text \<open>
  \<open>andThen m f\<close> runs \<open>m\<close>, then \<open>f\<close> on its value. When \<open>m\<close> throws, the rest is
  skipped and the state stays as \<open>m\<close> left it: what an operation wrote before an exception
  stays written.
\<close>

definition andThen :: "'a js \<Rightarrow> ('a \<Rightarrow> 'b js) \<Rightarrow> 'b js" where
  "andThen m f b =
     (case m b of
        (Return x, b') \<Rightarrow> f x b'
      | (Throw e, b') \<Rightarrow> (Throw e, b')
      | (Beyond, b') \<Rightarrow> (Beyond, b'))"

text \<open>\<^verbatim>\<open>a && b\<close>, where \<open>b\<close> is evaluated only when \<open>a\<close> is truthy.\<close>

definition and_also :: "jsval js \<Rightarrow> jsval js \<Rightarrow> jsval js" where
  "and_also m n = andThen m (\<lambda>a. if truthy a then n else ret a)"

fun mapM :: "('a \<Rightarrow> 'b js) \<Rightarrow> 'a list \<Rightarrow> 'b list js" where
  "mapM f [] = ret []"
| "mapM f (x # xs) = andThen (f x) (\<lambda>y. andThen (mapM f xs) (\<lambda>ys. ret (y # ys)))"

subsection \<open>Maps, the set, the emitter, the console\<close>

definition map_get :: "(jsval \<rightharpoonup> jsval) \<Rightarrow> jsval \<Rightarrow> jsval" where
  "map_get m k = (case m k of Some v \<Rightarrow> v | None \<Rightarrow> Undefined)"

definition comps_get :: "jsval \<Rightarrow> jsval js" where
  "comps_get k b = (Return (map_get (comps b) k), b)"

definition comps_set :: "jsval \<Rightarrow> jsval \<Rightarrow> unit js" where
  "comps_set k v b = (Return (), b\<lparr>comps := (comps b)(k \<mapsto> v)\<rparr>)"

definition nodes_get :: "jsval \<Rightarrow> jsval js" where
  "nodes_get k b = (Return (map_get (nodes b) k), b)"

definition nodes_set :: "jsval \<Rightarrow> jsval \<Rightarrow> unit js" where
  "nodes_set k v b = (Return (), b\<lparr>nodes := (nodes b)(k \<mapsto> v)\<rparr>)"

definition nodes_delete :: "jsval \<Rightarrow> unit js" where
  "nodes_delete k b = (Return (), b\<lparr>nodes := (nodes b)(k := None)\<rparr>)"

definition roots_add :: "jsval \<Rightarrow> unit js" where
  "roots_add k b = (Return (), b\<lparr>roots := insert k (roots b)\<rparr>)"

definition roots_delete :: "jsval \<Rightarrow> unit js" where
  "roots_delete k b = (Return (), b\<lparr>roots := roots b - {k}\<rparr>)"

text \<open>
  A WeakMap takes objects as keys (functions are objects): \<^verbatim>\<open>set\<close> with another key is a
  TypeError, \<^verbatim>\<open>has\<close>, \<^verbatim>\<open>get\<close> and \<^verbatim>\<open>delete\<close> find nothing there.
\<close>

definition ids_has :: "jsval \<Rightarrow> bool js" where
  "ids_has k b = (Return (ids b k \<noteq> None), b)"

definition ids_get :: "jsval \<Rightarrow> jsval js" where
  "ids_get k b = (Return (map_get (ids b) k), b)"

definition ids_set :: "jsval \<Rightarrow> jsval \<Rightarrow> unit js" where
  "ids_set k v b =
     (if is_object k then (Return (), b\<lparr>ids := (ids b)(k \<mapsto> v)\<rparr>)
      else (Throw TypeError, b))"

definition ids_delete :: "jsval \<Rightarrow> unit js" where
  "ids_delete k b = (Return (), b\<lparr>ids := (ids b)(k := None)\<rparr>)"

definition emit :: "string \<Rightarrow> jsval \<Rightarrow> unit js" where
  "emit ev data b =
     (Return (), b\<lparr>emitted := emitted b @ [(ev, data, tables.truncate b)]\<rparr>)"

definition console_warn :: "string \<Rightarrow> unit js" where
  "console_warn msg b = (Return (), b\<lparr>console := console b @ [msg]\<rparr>)"

definition console_log :: "string \<Rightarrow> unit js" where
  "console_log msg b = (Return (), b\<lparr>console := console b @ [msg]\<rparr>)"

subsection \<open>Objects on the heap\<close>

definition prop_of :: "jsval \<Rightarrow> string \<Rightarrow> jsval js" where
  "prop_of obj k b = (get_prop (heap b) obj k, b)"

definition assign_prop :: "jsval \<Rightarrow> string \<Rightarrow> jsval \<Rightarrow> unit js" where
  "assign_prop obj k v b =
     (case set_prop (heap b) obj k v of (r, h') \<Rightarrow> (r, b\<lparr>heap := h'\<rparr>))"

text \<open>
  \<^verbatim>\<open>delete obj[k]\<close>, which the Backend applies to the plain object it has just made: the
  own property goes, if there is one.
\<close>

definition delete_prop :: "jsval \<Rightarrow> string \<Rightarrow> unit js" where
  "delete_prop obj k b =
     (case obj of
        Ref a \<Rightarrow>
          (if a < length (heap b) then
             (case heap b ! a of
                Obj ps \<Rightarrow> (Return (), b\<lparr>heap := (heap b)[a := Obj (ps(k := None))]\<rparr>)
              | _ \<Rightarrow> (Beyond, b))
           else (Beyond, b))
      | Undefined \<Rightarrow> (Throw TypeError, b)
      | Null \<Rightarrow> (Throw TypeError, b)
      | _ \<Rightarrow> (Beyond, b))"

definition alloc :: "cell \<Rightarrow> jsval js" where
  "alloc c b = (Return (Ref (length (heap b))), b\<lparr>heap := heap b @ [c]\<rparr>)"

text \<open>
  The own enumerable properties that \<^verbatim>\<open>assign\<close> copies from a source: those of a plain
  object, the elements of an array, the characters of a string, none of another value.
\<close>

definition elems_as_props :: "jsval list \<Rightarrow> (string \<rightharpoonup> jsval)" where
  "elems_as_props xs =
     (\<lambda>k. case index_of_key k of
            Some i \<Rightarrow> if i < length xs then Some (xs ! i) else None
          | None \<Rightarrow> None)"

definition enumerable :: "heap \<Rightarrow> jsval \<Rightarrow> (string \<rightharpoonup> jsval)" where
  "enumerable h src =
     (case src of
        Ref a \<Rightarrow>
          (case cell_at h a of
             Obj ps \<Rightarrow> ps
           | Arr xs \<Rightarrow> elems_as_props xs
           | Locked ps \<Rightarrow> ps
           | LockedArr xs \<Rightarrow> elems_as_props xs)
      | JStr s \<Rightarrow> elems_as_props (map (\<lambda>c. JStr [c]) s)
      | _ \<Rightarrow> Map.empty)"

text \<open>
  \<^verbatim>\<open>assign({}, data)\<close>: a new plain object that gets the properties of \<open>data\<close> by
  assignment. An own property of \<open>data\<close> named \<^verbatim>\<open>__proto__\<close> therefore goes to the
  inherited setter of the new object and is not copied: a value that is neither an object
  nor \<^verbatim>\<open>null\<close> is ignored, another one replaces the prototype of the copy, which the model
  does not follow.
\<close>

definition assign :: "jsval \<Rightarrow> jsval js" where
  "assign src b =
     (let ps = enumerable (heap b) src
      in case ps ''__proto__'' of
           None \<Rightarrow> alloc (Obj ps) b
         | Some v \<Rightarrow>
             if is_object v \<or> v = Null then (Beyond, b)
             else alloc (Obj (ps(''__proto__'' := None))) b)"

text \<open>
  A call \<open>f()\<close> whose result is not used. A host function is recorded; anything that is not
  a function is a TypeError, and so is the built-in \<^verbatim>\<open>map\<close> called with no callback.
\<close>

definition call :: "jsval \<Rightarrow> unit js" where
  "call f b =
     (case f of
        Fun (Host n) \<Rightarrow> (Return (), b\<lparr>host_calls := host_calls b @ [f]\<rparr>)
      | _ \<Rightarrow> (Throw TypeError, b))"

text \<open>
  \<^verbatim>\<open>recv.map(cb)\<close>. The built-in on an array calls \<open>cb\<close> on the elements in order and
  returns a new array. A \<^verbatim>\<open>map\<close> of the host, or the built-in on a receiver that is not an
  array, is beyond the model; a \<^verbatim>\<open>map\<close> that is not a function is a TypeError.
\<close>

definition call_map :: "jsval \<Rightarrow> (jsval \<Rightarrow> jsval js) \<Rightarrow> jsval js" where
  "call_map recv cb =
     andThen (prop_of recv ''map'') (\<lambda>m b.
       case m of
         Fun ArrayProtoMap \<Rightarrow>
           (case recv of
              Ref a \<Rightarrow>
                (case cell_at (heap b) a of
                   Arr xs \<Rightarrow> andThen (mapM cb xs) (\<lambda>ys. alloc (Arr ys)) b
                 | LockedArr xs \<Rightarrow> andThen (mapM cb xs) (\<lambda>ys. alloc (Arr ys)) b
                 | _ \<Rightarrow> (Beyond, b))
            | _ \<Rightarrow> (Beyond, b))
       | Fun (Host n) \<Rightarrow> (Beyond, b)
       | _ \<Rightarrow> (Throw TypeError, b))"

subsection \<open>The methods\<close>

text \<open>
  \<^verbatim>\<open>
  function randid() {
    return Math.random().toString(0x0f).slice(10, 20)
  }
  \<close>
  The digits of a floating-point number are not modelled: the string that the \<open>n\<close>-th call
  returns is \<open>math_random b n\<close>, whatever the environment supplies.
\<close>

definition randid :: "jsval js" where
  "randid b = (Return (JStr (math_random b (drawn b))), b\<lparr>drawn := Suc (drawn b)\<rparr>)"

text \<open>
  \<^verbatim>\<open>
  getId(element: Component): string {
    if ('object' !== typeof element) {
      return element;
    }
    if (!this.ids.has(element)) {
      this.ids.set(element, randid());
      this.comps.set(this.ids.get(element), element);
    }
    return this.ids.get(element);
  }
  \<close>
\<close>

definition getId :: "jsval \<Rightarrow> jsval js" where
  "getId element =
     (if ''object'' \<noteq> typeof element then ret element
      else
        andThen (ids_has element) (\<lambda>has.
        andThen (if \<not> has then
                   andThen randid (\<lambda>r.
                   andThen (ids_set element r) (\<lambda>_.
                   andThen (ids_get element) (\<lambda>i.
                   comps_set i element)))
                 else ret ()) (\<lambda>_.
        ids_get element)))"

text \<open>
  \<^verbatim>\<open>
  addRoot(element: Component) {
    var id = this.getId(element);
    this.roots.add(id);
    this.emit('root', id);
  }
  \<close>
\<close>

definition addRoot :: "jsval \<Rightarrow> unit js" where
  "addRoot element =
     andThen (getId element) (\<lambda>ident.
     andThen (roots_add ident) (\<lambda>_.
     emit ''root'' ident))"

text \<open>
  The part that \<^verbatim>\<open>onMounted\<close> and \<^verbatim>\<open>onUpdated\<close> have in common, word for word, up to the
  name of the event:
  \<^verbatim>\<open>
    var id = this.getId(component);
    this.nodes.set(id, data);

    var send = assign({}, data);
    if (send.children && send.children.map) {
      send.children = send.children.map(c => this.getId(c));
    }
    send.id = id;
    send.canUpdate = send.updater && !!send.updater.forceUpdate;
    delete send.type;
    delete send.updater;
    this.emit('mount', send);
  \<close>
\<close>

definition store_and_send :: "string \<Rightarrow> jsval \<Rightarrow> jsval \<Rightarrow> unit js" where
  "store_and_send ev component data =
     andThen (getId component) (\<lambda>ident.
     andThen (nodes_set ident data) (\<lambda>_.
     andThen (assign data) (\<lambda>send.
     andThen (and_also (prop_of send ''children'')
                (andThen (prop_of send ''children'') (\<lambda>c. prop_of c ''map''))) (\<lambda>cond.
     andThen (if truthy cond then
                andThen (prop_of send ''children'') (\<lambda>c.
                andThen (call_map c (\<lambda>c. getId c)) (\<lambda>mapped.
                assign_prop send ''children'' mapped))
              else ret ()) (\<lambda>_.
     andThen (assign_prop send ''id'' ident) (\<lambda>_.
     andThen (and_also (prop_of send ''updater'')
                (andThen (prop_of send ''updater'') (\<lambda>u.
                 andThen (prop_of u ''forceUpdate'') (\<lambda>f. ret (to_bool f))))) (\<lambda>can.
     andThen (assign_prop send ''canUpdate'' can) (\<lambda>_.
     andThen (delete_prop send ''type'') (\<lambda>_.
     andThen (delete_prop send ''updater'') (\<lambda>_.
     emit ev send))))))))))"

definition onMounted :: "jsval \<Rightarrow> jsval \<Rightarrow> unit js" where
  "onMounted component data = store_and_send ''mount'' component data"

definition onUpdated :: "jsval \<Rightarrow> jsval \<Rightarrow> unit js" where
  "onUpdated component data = store_and_send ''update'' component data"

text \<open>
  \<^verbatim>\<open>
  onUnmounted(component: Component) {
    var id = this.getId(component);
    this.nodes.delete(id);
    this.roots.delete(id);
    this.emit('unmount', id);
    this.ids.delete(component);
  }
  \<close>
\<close>

definition onUnmounted :: "jsval \<Rightarrow> unit js" where
  "onUnmounted component =
     andThen (getId component) (\<lambda>ident.
     andThen (nodes_delete ident) (\<lambda>_.
     andThen (roots_delete ident) (\<lambda>_.
     andThen (emit ''unmount'' ident) (\<lambda>_.
     ids_delete component))))"

text \<open>
  \<^verbatim>\<open>_setProps\<close>, \<^verbatim>\<open>_setState\<close> and \<^verbatim>\<open>_setContext\<close> differ in the field they write to and
  in the warning (\<^verbatim>\<open>_setContext\<close> warns with the words of \<^verbatim>\<open>_setState\<close>):
  \<^verbatim>\<open>
  _setProps({id, path, value}: {id: string, path: Array<string>, value: any}) {
    var data = this.nodes.get(id);
    setIn(data.props, path, value);
    if (data.updater && data.updater.forceUpdate) {
      data.updater.forceUpdate();
      this.onUpdated(this.comps.get(id), data);
    } else {
      console.warn("trying to set props on a component that doesn't support it");
    }
  }
  \<close>
\<close>

definition setIn_js :: "jsval \<Rightarrow> string list \<Rightarrow> jsval \<Rightarrow> bool js" where
  "setIn_js obj path v b =
     (case setIn (heap b) obj path v of (r, h') \<Rightarrow> (r, b\<lparr>heap := h'\<rparr>))"

definition set_field :: "string \<Rightarrow> string \<Rightarrow> jsval \<Rightarrow> string list \<Rightarrow> jsval \<Rightarrow> unit js" where
  "set_field field msg ident path v =
     andThen (nodes_get ident) (\<lambda>data.
     andThen (prop_of data field) (\<lambda>target.
     andThen (setIn_js target path v) (\<lambda>_.
     andThen (and_also (prop_of data ''updater'')
                (andThen (prop_of data ''updater'') (\<lambda>u. prop_of u ''forceUpdate''))) (\<lambda>cond.
     if truthy cond then
       andThen (prop_of data ''updater'') (\<lambda>u.
       andThen (prop_of u ''forceUpdate'') (\<lambda>f.
       andThen (call f) (\<lambda>_.
       andThen (comps_get ident) (\<lambda>component.
       onUpdated component data))))
     else console_warn msg))))"

definition setProps :: "jsval \<Rightarrow> string list \<Rightarrow> jsval \<Rightarrow> unit js" where
  "setProps ident path v =
     set_field ''props'' ''trying to set props on a component that doesn't support it'' ident path v"

definition setState :: "jsval \<Rightarrow> string list \<Rightarrow> jsval \<Rightarrow> unit js" where
  "setState ident path v =
     set_field ''state'' ''trying to set state on a component that doesn't support it'' ident path v"

definition setContext :: "jsval \<Rightarrow> string list \<Rightarrow> jsval \<Rightarrow> unit js" where
  "setContext ident path v =
     set_field ''context'' ''trying to set state on a component that doesn't support it'' ident path v"

text \<open>
  \<^verbatim>\<open>
  getNodeForID(id: string): ?Object {
    var component = this.comps.get(id);
    if (!component) {
      return null;
    }
    if (!this.reactInternals) {
      return null;
    }
    return this.reactInternals.getNativeFromReactElement(component);
  }
  \<close>
\<close>

definition getNodeForID :: "jsval \<Rightarrow> jsval js" where
  "getNodeForID ident =
     andThen (comps_get ident) (\<lambda>component b.
       if \<not> truthy component then (Return Null, b)
       else case reactInternals b of
              None \<Rightarrow> (Return Null, b)
            | Some internals \<Rightarrow> (Return (getNativeFromReactElement internals component), b))"

text \<open>
  \<^verbatim>\<open>
  highlight(id: string) {
    var data = this.nodes.get(id);
    var node = this.getNodeForID(id);
    if (node) {
      this.emit('highlight', {node, name: data.name, props: data.props});
    }
  }
  \<close>
\<close>

definition highlight :: "jsval \<Rightarrow> unit js" where
  "highlight ident =
     andThen (nodes_get ident) (\<lambda>data.
     andThen (getNodeForID ident) (\<lambda>node.
     if truthy node then
       andThen (prop_of data ''name'') (\<lambda>name.
       andThen (prop_of data ''props'') (\<lambda>props.
       andThen (alloc (Obj [''node'' \<mapsto> node, ''name'' \<mapsto> name, ''props'' \<mapsto> props])) (\<lambda>payload.
       emit ''highlight'' payload)))
     else ret ()))"

text \<open>
  \<^verbatim>\<open>
  highlightMany(ids: Array<string>) {
    var nodes = [];
    ids.forEach(id => {
      var node = this.getNodeForID(id);
      if (node) {
        nodes.push(node);
      }
    });
    if (nodes.length) {
      this.emit('highlightMany', nodes);
    }
  }
  \<close>
\<close>

definition highlightMany :: "jsval list \<Rightarrow> unit js" where
  "highlightMany idents =
     andThen (mapM getNodeForID idents) (\<lambda>found.
       let ns = filter truthy found
       in if ns \<noteq> [] then andThen (alloc (Arr ns)) (\<lambda>payload. emit ''highlightMany'' payload)
          else ret ())"

text \<open>
  \<^verbatim>\<open>
  scrollToNode(id: string): void {
    var node = this.getNodeForID(id);
    if (!node) {
      console.warn('unable to get the node for scrolling');
      return;
    }
    if (node.scrollIntoViewIfNeeded) {
      node.scrollIntoViewIfNeeded();
    } else {
      node.scrollIntoView();
    }
    this.highlight(id);
  }
  \<close>
\<close>

definition scrollToNode :: "jsval \<Rightarrow> unit js" where
  "scrollToNode ident =
     andThen (getNodeForID ident) (\<lambda>node.
     if \<not> truthy node then console_warn ''unable to get the node for scrolling''
     else
       andThen (prop_of node ''scrollIntoViewIfNeeded'') (\<lambda>needed.
       andThen (if truthy needed then call needed
                else andThen (prop_of node ''scrollIntoView'') (\<lambda>f. call f)) (\<lambda>_.
       highlight ident)))"

text \<open>
  \<^verbatim>\<open>
  getIDForNode(node: Object): ?string {
    if (!this.reactInternals) {
      return null;
    }
    var component = this.reactInternals.getReactElementFromNative(node);
    if (component) {
      return this.getId(component);
    }
  }
  \<close>
\<close>

definition getIDForNode :: "jsval \<Rightarrow> jsval js" where
  "getIDForNode node b =
     (case reactInternals b of
        None \<Rightarrow> (Return Null, b)
      | Some internals \<Rightarrow>
          (let component = getReactElementFromNative internals node
           in if truthy component then getId component b else (Return Undefined, b)))"

text \<open>
  \<^verbatim>\<open>
  selectFromDOMNode(node: Object, quiet?: boolean) {
    var id = this.getIDForNode(node);
    if (!id) {
      return;
    }
    this.emit('setSelection', {id, quiet});
  }

  selectFromReactInstance(instance: Object, quiet?: boolean) {
    var id = this.getId(instance);
    if (!id) {
      console.log('no instance id', instance);
    }
    this.emit('setSelection', {id, quiet});
  }
  \<close>
\<close>

definition selectFromDOMNode :: "jsval \<Rightarrow> jsval \<Rightarrow> unit js" where
  "selectFromDOMNode node quiet =
     andThen (getIDForNode node) (\<lambda>ident.
     if \<not> truthy ident then ret ()
     else andThen (alloc (Obj [''id'' \<mapsto> ident, ''quiet'' \<mapsto> quiet])) (\<lambda>payload.
          emit ''setSelection'' payload))"

definition selectFromReactInstance :: "jsval \<Rightarrow> jsval \<Rightarrow> unit js" where
  "selectFromReactInstance instance quiet =
     andThen (getId instance) (\<lambda>ident.
     andThen (if \<not> truthy ident then console_log ''no instance id'' else ret ()) (\<lambda>_.
     andThen (alloc (Obj [''id'' \<mapsto> ident, ''quiet'' \<mapsto> quiet])) (\<lambda>payload.
     emit ''setSelection'' payload)))"

text \<open>
  \<^verbatim>\<open>
  setReactInternals(reactInternals: InternalsObject) {
    this.reactInternals = reactInternals;
  }
  \<close>
\<close>

definition setReactInternals :: "adapter \<Rightarrow> unit js" where
  "setReactInternals internals b = (Return (), b\<lparr>reactInternals := Some internals\<rparr>)"

subsection \<open>Runs of the Backend\<close>

text \<open>
  What the environment can do to a Backend: call one of its methods, or (the host, between
  two calls) change the objects on the heap. A call that throws leaves the Backend as the
  exception found it, and the next call goes on from there; a call that leaves the model
  is cut where it left.
\<close>

datatype action =
    GetId jsval
  | AddRoot jsval
  | OnMounted jsval jsval
  | OnUpdated jsval jsval
  | OnUnmounted jsval
  | SetProps jsval "string list" jsval
  | SetState jsval "string list" jsval
  | SetContext jsval "string list" jsval
  | Highlight jsval
  | HighlightMany "jsval list"
  | ScrollToNode jsval
  | SelectFromDOMNode jsval jsval
  | SelectFromReactInstance jsval jsval
  | SetReactInternals adapter
  | HostWrites heap

fun exec :: "action \<Rightarrow> backend \<Rightarrow> backend" where
  "exec (GetId v) b = snd (getId v b)"
| "exec (AddRoot v) b = snd (addRoot v b)"
| "exec (OnMounted c d) b = snd (onMounted c d b)"
| "exec (OnUpdated c d) b = snd (onUpdated c d b)"
| "exec (OnUnmounted c) b = snd (onUnmounted c b)"
| "exec (SetProps i p v) b = snd (setProps i p v b)"
| "exec (SetState i p v) b = snd (setState i p v b)"
| "exec (SetContext i p v) b = snd (setContext i p v b)"
| "exec (Highlight i) b = snd (highlight i b)"
| "exec (HighlightMany is) b = snd (highlightMany is b)"
| "exec (ScrollToNode i) b = snd (scrollToNode i b)"
| "exec (SelectFromDOMNode n q) b = snd (selectFromDOMNode n q b)"
| "exec (SelectFromReactInstance n q) b = snd (selectFromReactInstance n q b)"
| "exec (SetReactInternals r) b = snd (setReactInternals r b)"
| "exec (HostWrites h) b = b\<lparr>heap := h\<rparr>"

definition run :: "action list \<Rightarrow> backend \<Rightarrow> backend" where
  "run as b = foldl (\<lambda>b a. exec a b) b as"

section \<open>Notions of the statements\<close>

subsection \<open>Containers along a path\<close>

text \<open>
  \<open>child_of h obj k\<close> is the value of \<^verbatim>\<open>obj[k]\<close> where the read returns one (and
  \<^verbatim>\<open>undefined\<close> where it throws or is not described).

  The containers of a path exist when every value the path goes through but the last is
  an allocated object that answers the next key itself (\<open>reads\<close>), and the last one can
  take the last key (\<open>holds\<close>): it is an allocated ordinary plain object, and the key is not
  an inherited \<^verbatim>\<open>__proto__\<close>, or it is an allocated ordinary array and the key is an index.
  \<open>walk\<close> is the value at the end of a path.
\<close>

definition child_of :: "heap \<Rightarrow> jsval \<Rightarrow> string \<Rightarrow> jsval" where
  "child_of h obj k =
     (case get_prop h obj k of Return v \<Rightarrow> v | Throw e \<Rightarrow> Undefined | Beyond \<Rightarrow> Undefined)"

fun reads :: "heap \<Rightarrow> jsval \<Rightarrow> string \<Rightarrow> bool" where
  "reads h (Ref a) k = (a < length h \<and> \<not> inherited (h ! a) k)"
| "reads h v k = False"

fun holds :: "heap \<Rightarrow> jsval \<Rightarrow> string \<Rightarrow> bool" where
  "holds h (Ref a) k =
     (a < length h \<and>
      (case h ! a of
         Obj ps \<Rightarrow> k \<noteq> ''__proto__'' \<or> ps k \<noteq> None
       | Arr xs \<Rightarrow> index_of_key k \<noteq> None
       | Locked ps \<Rightarrow> False
       | LockedArr xs \<Rightarrow> False))"
| "holds h v k = False"

fun containers :: "heap \<Rightarrow> jsval \<Rightarrow> string list \<Rightarrow> bool" where
  "containers h obj [] = True"
| "containers h obj [k] = holds h obj k"
| "containers h obj (k # k' # ks) = (reads h obj k \<and> containers h (child_of h obj k) (k' # ks))"

fun walk :: "heap \<Rightarrow> jsval \<Rightarrow> string list \<Rightarrow> jsval" where
  "walk h obj [] = obj"
| "walk h obj (k # ks) = walk h (child_of h obj k) ks"

text \<open>
  The slot that a key names in an object: the element of an array for an index, the named
  property otherwise. \<open>slots\<close> lists the slots that a path reads, one for each key.
\<close>

datatype slot = Named addr string | Elem addr nat

fun is_array :: "cell \<Rightarrow> bool" where
  "is_array (Arr xs) = True"
| "is_array (LockedArr xs) = True"
| "is_array c = False"

fun slot_of :: "heap \<Rightarrow> jsval \<Rightarrow> string \<Rightarrow> slot option" where
  "slot_of h (Ref a) k =
     (case (if is_array (cell_at h a) then index_of_key k else None) of
        Some i \<Rightarrow> Some (Elem a i)
      | None \<Rightarrow> Some (Named a k))"
| "slot_of h v k = None"

fun slots :: "heap \<Rightarrow> jsval \<Rightarrow> string list \<Rightarrow> slot option list" where
  "slots h obj [] = []"
| "slots h obj (k # ks) = slot_of h obj k # slots h (child_of h obj k) ks"




text \<open>
  What an assignment that a container can take (\<open>holds\<close>) does to the heap.
\<close>

definition written :: "heap \<Rightarrow> addr \<Rightarrow> string \<Rightarrow> jsval \<Rightarrow> heap" where
  "written h a k v =
     (case h ! a of
        Obj ps \<Rightarrow> h[a := Obj (ps(k \<mapsto> v))]
      | Arr xs \<Rightarrow> h[a := Arr (arr_store xs (the (index_of_key k)) v)]
      | _ \<Rightarrow> h)"

subsection \<open>Invariants of a run\<close>

text \<open>
  \<open>preserves P m\<close>: the operation \<open>m\<close> keeps \<open>P\<close>, however it ends. \<open>registry_only P\<close>:
  \<open>P\<close> looks at \<^verbatim>\<open>comps\<close>, \<^verbatim>\<open>ids\<close> and the random supply only.
\<close>

definition preserves :: "(backend \<Rightarrow> bool) \<Rightarrow> 'a js \<Rightarrow> bool" where
  "preserves P m = (\<forall>b. P b \<longrightarrow> P (snd (m b)))"

definition registry_only :: "(backend \<Rightarrow> bool) \<Rightarrow> bool" where
  "registry_only P =
     (\<forall>b b'. comps b' = comps b \<and> ids b' = ids b \<and> math_random b' = math_random b \<and>
        drawn b' = drawn b \<longrightarrow> P b \<longrightarrow> P b')"

text \<open>
  The invariant of the identity registry, as long as no more than \<open>N\<close> identifiers have been
  drawn: whatever \<^verbatim>\<open>ids\<close> maps a handle to, \<^verbatim>\<open>comps\<close> maps back to that handle, and every key
  of \<^verbatim>\<open>comps\<close> is one of the strings drawn so far.
\<close>

definition registry_inv :: "(nat \<Rightarrow> string) \<Rightarrow> nat \<Rightarrow> backend \<Rightarrow> bool" where
  "registry_inv rnd N b =
     (math_random b = rnd \<and>
      (drawn b \<le> N \<longrightarrow>
         (\<forall>x i. ids b x = Some i \<longrightarrow> comps b i = Some x) \<and>
         dom (comps b) \<subseteq> (\<lambda>k. JStr (rnd k)) ` {..<drawn b}))"

text \<open>
  After an identifier \<open>rnd k\<close> has been released, as long as no more than \<open>N\<close> identifiers
  have been drawn: it has been drawn, and \<^verbatim>\<open>ids\<close> maps no handle to it.
\<close>

definition released_inv :: "(nat \<Rightarrow> string) \<Rightarrow> nat \<Rightarrow> nat \<Rightarrow> backend \<Rightarrow> bool" where
  "released_inv rnd N k b =
     (math_random b = rnd \<and>
      (drawn b \<le> N \<longrightarrow> k < drawn b \<and> (\<forall>y. ids b y \<noteq> Some (JStr (rnd k)))))"

subsection \<open>The outbound message\<close>

text \<open>
  The steps of \<open>store_and_send\<close> after the copy has been made, in two parts: the rewriting
  of the children, and the rest up to the event.
\<close>

definition rewrite_children :: "jsval \<Rightarrow> unit js" where
  "rewrite_children send =
     andThen (and_also (prop_of send ''children'')
                (andThen (prop_of send ''children'') (\<lambda>c. prop_of c ''map''))) (\<lambda>cond.
     if truthy cond then
       andThen (prop_of send ''children'') (\<lambda>c.
       andThen (call_map c (\<lambda>c. getId c)) (\<lambda>mapped.
       assign_prop send ''children'' mapped))
     else ret ())"

definition finish_message :: "string \<Rightarrow> jsval \<Rightarrow> jsval \<Rightarrow> unit js" where
  "finish_message ev ident send =
     andThen (assign_prop send ''id'' ident) (\<lambda>_.
     andThen (and_also (prop_of send ''updater'')
                (andThen (prop_of send ''updater'') (\<lambda>u.
                 andThen (prop_of u ''forceUpdate'') (\<lambda>f. ret (to_bool f))))) (\<lambda>can.
     andThen (assign_prop send ''canUpdate'' can) (\<lambda>_.
     andThen (delete_prop send ''type'') (\<lambda>_.
     andThen (delete_prop send ''updater'') (\<lambda>_.
     emit ev send)))))"

text \<open>
  A value is valid in a heap when it is not a reference to a cell the heap does not have.
  \<^verbatim>\<open>children\<close> is sequence-valued when it passes the test of the Backend
  (\<^verbatim>\<open>send.children && send.children.map\<close>); \<open>elements\<close> are the elements of an array.
  \<open>can_update h u\<close> is \<^verbatim>\<open>u && !!u.forceUpdate\<close>.
\<close>

fun valid :: "heap \<Rightarrow> jsval \<Rightarrow> bool" where
  "valid h (Ref a) = (a < length h)"
| "valid h v = True"

definition sequence_valued :: "heap \<Rightarrow> jsval \<Rightarrow> bool" where
  "sequence_valued h c = (truthy c \<and> truthy (child_of h c ''map''))"

definition elements :: "heap \<Rightarrow> jsval \<Rightarrow> jsval list option" where
  "elements h v =
     (case v of
        Ref a \<Rightarrow>
          (if a < length h then
             (case h ! a of Arr xs \<Rightarrow> Some xs | LockedArr xs \<Rightarrow> Some xs | _ \<Rightarrow> None)
           else None)
      | _ \<Rightarrow> None)"

definition can_update :: "heap \<Rightarrow> jsval \<Rightarrow> jsval" where
  "can_update h u = (if truthy u then JBool (truthy (child_of h u ''forceUpdate'')) else u)"

text \<open>
  \<open>grown b b'\<close>: from \<open>b\<close> to \<open>b'\<close> only the registry has changed, and \<^verbatim>\<open>ids\<close> has kept
  what it had. \<open>settled b x y\<close>: \<^verbatim>\<open>getId\<close> of \<open>x\<close> is \<open>y\<close> in \<open>b\<close>, with nothing to register.
  \<open>prefix_kept h b\<close>: the heap of \<open>b\<close> starts with \<open>h\<close>.
\<close>

definition grown :: "backend \<Rightarrow> backend \<Rightarrow> bool" where
  "grown b b' =
     (heap b' = heap b \<and> nodes b' = nodes b \<and> roots b' = roots b \<and>
      emitted b' = emitted b \<and> console b' = console b \<and> host_calls b' = host_calls b \<and>
      reactInternals b' = reactInternals b \<and> math_random b' = math_random b \<and>
      (\<forall>x i. ids b x = Some i \<longrightarrow> ids b' x = Some i))"

definition settled :: "backend \<Rightarrow> jsval \<Rightarrow> jsval \<Rightarrow> bool" where
  "settled b x y = (if ''object'' \<noteq> typeof x then y = x else ids b x = Some y)"

definition prefix_kept :: "heap \<Rightarrow> backend \<Rightarrow> bool" where
  "prefix_kept h b = (length h \<le> length (heap b) \<and> take (length h) (heap b) = h)"

section \<open>Evaluation\<close>

lemmas names = object_proto_names_def array_proto_names_def string_proto_names_def
  number_proto_names_def function_names_def

lemmas prims = ret_def map_get_def comps_get_def comps_set_def
  nodes_get_def nodes_set_def nodes_delete_def roots_add_def roots_delete_def ids_has_def ids_get_def
  ids_set_def ids_delete_def emit_def console_warn_def console_log_def prop_of_def assign_prop_def delete_prop_def
  alloc_def assign_def call_def randid_def setIn_js_def setReactInternals_def

lemmas meths = addRoot_def store_and_send_def onMounted_def onUpdated_def onUnmounted_def
  set_field_def setProps_def setState_def setContext_def getNodeForID_def highlight_def
  highlightMany_def scrollToNode_def getIDForNode_def selectFromDOMNode_def
  selectFromReactInstance_def run_def init_def andThen_def and_also_def call_map_def cell_at_def
  to_bool_def enumerable_def elems_as_props_def tables.truncate_def setIn_def Let_def names

text \<open>\<^verbatim>\<open>getId\<close> by cases: a primitive, a tracked handle, a new handle, \<^verbatim>\<open>null\<close>.\<close>

lemma getId_cases:
  "getId v b =
     (if ''object'' \<noteq> typeof v then (Return v, b)
      else case ids b v of
             Some i \<Rightarrow> (Return i, b)
           | None \<Rightarrow>
               if is_object v then
                 (Return (JStr (math_random b (drawn b))),
                  b\<lparr>drawn := Suc (drawn b),
                    ids := (ids b)(v \<mapsto> JStr (math_random b (drawn b))),
                    comps := (comps b)(JStr (math_random b (drawn b)) \<mapsto> v)\<rparr>)
               else (Throw TypeError, b\<lparr>drawn := Suc (drawn b)\<rparr>))"
  by (auto simp: getId_def prims andThen_def split: option.splits)

section \<open>The path accessor: missing containers and the round trip\<close>

text \<open>
  C5. The claim: on a path with a missing intermediate container, \<^verbatim>\<open>setIn\<close> returns failure,
  leaves the object as it is and does not throw. The code tests \<^verbatim>\<open>child === null\<close>, and the
  walk gives \<^verbatim>\<open>null\<close> only after it has passed a falsy value; when the container of the last
  key is the missing one, the walk ends with \<^verbatim>\<open>undefined\<close>, the test lets it through and
  the assignment throws. On the empty object, \<^verbatim>\<open>setIn({}, ['a', 'b'], 1)\<close> throws a TypeError,
  while the longer path \<^verbatim>\<open>['a', 'b', 'c']\<close> returns \<^verbatim>\<open>false\<close>.
\<close>

theorem setIn_missing_container_throws:
  "setIn [Obj Map.empty] (Ref 0) [''a'', ''b''] (JNum 1) = (Throw TypeError, [Obj Map.empty]) \<and>
   setIn [Obj Map.empty] (Ref 0) [''a'', ''b'', ''c''] (JNum 1) = (Return False, [Obj Map.empty])"
  by (simp add: setIn_def cell_at_def names)

lemma index_of_key_names: "index_of_key ''length'' = None" "index_of_key ''map'' = None"
  by (simp_all add: index_of_key_def digit_chars_def)

lemma holds_Ref: "holds h c k \<Longrightarrow> \<exists>a. c = Ref a \<and> a < length h"
  by (cases c) auto

lemma reads_Ref: "reads h c k \<Longrightarrow> \<exists>a. c = Ref a \<and> a < length h"
  by (cases c) auto

lemma containers_Cons:
  "ks \<noteq> [] \<Longrightarrow>
     containers h obj (k # ks) = (reads h obj k \<and> containers h (child_of h obj k) ks)"
  by (cases ks) auto

lemma containers_Ref: "containers h obj (k # ks) \<Longrightarrow> \<exists>a. obj = Ref a \<and> a < length h"
  by (cases ks) (auto dest: holds_Ref reads_Ref)

lemma step_reads:
  "reads h c k \<Longrightarrow> (if truthy c then get_prop h c k else Return Null) = Return (child_of h c k)"
  by (cases c) (auto simp: child_of_def cell_at_def)

lemma reduce_walk:
  "containers h obj (ks @ [k]) \<Longrightarrow>
     reduce (\<lambda>obj attr. if truthy obj then get_prop h obj attr else Return Null) ks obj
       = Return (walk h obj ks) \<and> holds h (walk h obj ks) k"
proof (induction ks arbitrary: obj)
  case Nil
  then show ?case by simp
next
  case (Cons a ks)
  then have r: "reads h obj a" and c: "containers h (child_of h obj a) (ks @ [k])"
    by (simp_all add: containers_Cons)
  from Cons.IH[OF c] step_reads[OF r] show ?case by simp
qed

lemma reduce_append:
  "reduce f (ks @ [k]) obj =
     (case reduce f ks obj of Return c \<Rightarrow> f c k | Throw e \<Rightarrow> Throw e | Beyond \<Rightarrow> Beyond)"
  by (induction ks arbitrary: obj) (auto split: outcome.splits)

lemma arr_store_nth: "arr_store xs i v ! i = v \<and> i < length (arr_store xs i v)"
  by (auto simp: arr_store_def nth_append)

lemma arr_store_other:
  "j < length xs \<Longrightarrow> j \<noteq> i \<Longrightarrow> arr_store xs i v ! j = xs ! j \<and> j < length (arr_store xs i v)"
  by (auto simp: arr_store_def nth_append)

lemma own_arr_index:
  "index_of_key k = Some j \<Longrightarrow> own (Arr xs) k = (if j < length xs then xs ! j else Undefined)"
  using index_of_key_names by auto

lemma own_arr_store: "index_of_key k = Some i \<Longrightarrow> own (Arr (arr_store xs i v)) k = v"
proof -
  assume i: "index_of_key k = Some i"
  then have "k \<noteq> ''length''" "k \<noteq> ''map''" using index_of_key_names by auto
  then show ?thesis using i arr_store_nth[of xs i v] by simp
qed

lemma set_prop_holds:
  "holds h (Ref a) k \<Longrightarrow> set_prop h (Ref a) k v = (Return (), written h a k v)"
  by (auto simp: written_def split: cell.splits)

lemma get_prop_written:
  assumes "holds h (Ref a) k"
  shows "get_prop (written h a k v) (Ref a) k = Return v"
proof (cases "h ! a")
  case (Obj ps)
  then show ?thesis using assms by (simp add: written_def cell_at_def)
next
  case (Arr xs)
  then obtain i where i: "index_of_key k = Some i" using assms by auto
  have "own (Arr (arr_store xs i v)) k = v" using own_arr_store[OF i] .
  then show ?thesis using assms Arr i by (simp add: written_def cell_at_def)
qed (use assms in simp_all)

lemma own_arr_Ref:
  "own (Arr xs) k = Ref r \<Longrightarrow> \<exists>j. index_of_key k = Some j \<and> j < length xs"
  by (auto split: if_splits option.splits)

lemma read_after_write:
  assumes w: "holds h (Ref a) name"
    and r: "reads h c k" and n: "child_of h c k = Ref r"
    and s: "slot_of h c k \<noteq> slot_of h (Ref a) name"
  shows "(if truthy c then get_prop (written h a name v) c k else Return Null) = Return (Ref r)"
proof -
  from r obtain a' where c: "c = Ref a'" "a' < length h" using reads_Ref by blast
  have ni: "\<not> inherited (h ! a') k" using r c by simp
  have o: "own (h ! a') k = Ref r" using n c ni by (simp add: child_of_def cell_at_def)
  have la: "a < length h" using w by simp
  show ?thesis
  proof (cases "a' = a")
    case False
    then have "written h a name v ! a' = h ! a'" "a' < length (written h a name v)"
      using c la by (auto simp: written_def split: cell.splits)
    then show ?thesis using c ni o by (simp add: cell_at_def)
  next
    case True
    show ?thesis
    proof (cases "h ! a")
      case (Obj ps)
      then have "k \<noteq> name" using s c True la by (auto simp: cell_at_def)
      then show ?thesis using c True la Obj ni o by (simp add: written_def cell_at_def)
    next
      case (Arr xs)
      have "own (Arr xs) k = Ref r" using o Arr True by simp
      from own_arr_Ref[OF this] obtain j where j: "index_of_key k = Some j" "j < length xs"
        by blast
      from w Arr obtain i where i: "index_of_key name = Some i" by auto
      have "j \<noteq> i" using s c True la Arr j i by (auto simp: cell_at_def)
      from arr_store_other[OF j(2) this, of v]
      have "own (Arr (arr_store xs i v)) k = xs ! j"
        unfolding own_arr_index[OF j(1)] by simp
      moreover have "xs ! j = Ref r"
        using \<open>own (Arr xs) k = Ref r\<close> j(2) unfolding own_arr_index[OF j(1)] by simp
      ultimately show ?thesis
        using c True la Arr i j by (simp add: written_def cell_at_def)
    next
      case (Locked ps)
      then show ?thesis using w by simp
    next
      case (LockedArr xs)
      then show ?thesis using w by simp
    qed
  qed
qed

lemma reduce_after_write:
  "containers h obj (ks @ [k]) \<Longrightarrow> holds h (Ref a) name \<Longrightarrow>
   slot_of h (Ref a) name \<notin> set (slots h obj ks) \<Longrightarrow>
     reduce (\<lambda>obj attr. if truthy obj then get_prop (written h a name v) obj attr else Return Null)
       ks obj = Return (walk h obj ks)"
proof (induction ks arbitrary: obj)
  case Nil
  then show ?case by simp
next
  case (Cons b ks)
  from Cons.prems(1) have r: "reads h obj b" and c: "containers h (child_of h obj b) (ks @ [k])"
    by (simp_all add: containers_Cons)
  from c obtain r' where n: "child_of h obj b = Ref r'"
    using containers_Ref[of h "child_of h obj b"] by (cases "ks @ [k]") auto
  from Cons.prems(3) have s: "slot_of h obj b \<noteq> slot_of h (Ref a) name"
    and s': "slot_of h (Ref a) name \<notin> set (slots h (child_of h obj b) ks)" by auto
  from read_after_write[OF Cons.prems(2) r n s, of v] Cons.IH[OF c Cons.prems(2) s']
  show ?case using n by simp
qed

text \<open>
  C6. The claim: for every object and every non-empty path whose intermediate containers
  all exist, \<^verbatim>\<open>setIn\<close> succeeds and \<^verbatim>\<open>getIn\<close> on the same path then returns the value. It
  fails on an object graph with a cycle: with \<^verbatim>\<open>o.a === o\<close>, \<^verbatim>\<open>setIn(o, ['a', 'a'], 5)\<close>
  overwrites the link the path runs through, and \<^verbatim>\<open>getIn(o, ['a', 'a'])\<close> then reads
  \<^verbatim>\<open>(5)['a']\<close>, which is \<^verbatim>\<open>undefined\<close>.
\<close>

theorem setIn_getIn_cyclic:
  "containers [Obj [''a'' \<mapsto> Ref 0]] (Ref 0) [''a'', ''a''] \<and>
   setIn [Obj [''a'' \<mapsto> Ref 0]] (Ref 0) [''a'', ''a''] (JNum 5)
     = (Return True, [Obj [''a'' \<mapsto> JNum 5]]) \<and>
   getIn [Obj [''a'' \<mapsto> JNum 5]] (Ref 0) [''a'', ''a''] = Return Undefined"
  by (simp add: setIn_def getIn_def cell_at_def child_of_def names)

text \<open>
  The round trip fails as well where the last key is left to a prototype. The key
  \<^verbatim>\<open>__proto__\<close> on an object without such an own property: \<^verbatim>\<open>setIn({}, ['__proto__'], 5)\<close>
  returns \<^verbatim>\<open>true\<close>, the inherited setter has ignored the number and the object is as
  before, and \<^verbatim>\<open>getIn\<close> reads the prototype of the object, which is not the value (and not
  a value of the model).
\<close>

lemma setIn_inherited_proto:
  "setIn [Obj Map.empty] (Ref 0) [''__proto__''] (JNum 5) = (Return True, [Obj Map.empty]) \<and>
   getIn [Obj Map.empty] (Ref 0) [''__proto__''] = Beyond"
  by (simp add: setIn_def getIn_def cell_at_def names)

text \<open>
  C6, amended. Take a non-empty path whose containers all exist: every value the path goes
  through but the last is an allocated object that answers the next key itself (an own
  property of a plain object; an element, the length or \<^verbatim>\<open>map\<close> of an array; for any other
  key no name of a standard prototype), and the container of the last key is an ordinary
  plain object, the key not being a \<^verbatim>\<open>__proto__\<close> that it inherits, or an ordinary array,
  the key being an index. If the slot that \<^verbatim>\<open>setIn\<close> writes (the last key in its container)
  is not one of the slots the path reads on its way there, then \<^verbatim>\<open>setIn\<close> returns \<^verbatim>\<open>true\<close>
  and \<^verbatim>\<open>getIn\<close> on the resulting heap returns the value written. (The path may go through
  the container of the last key before, as long as it does not go through the slot.)
\<close>

theorem setIn_getIn:
  assumes "path \<noteq> []"
    and "containers h obj path"
    and "slot_of h (walk h obj (butlast path)) (last path) \<notin> set (slots h obj (butlast path))"
  shows "fst (setIn h obj path v) = Return True \<and>
         getIn (snd (setIn h obj path v)) obj path = Return v"
proof -
  obtain ks k where p: "path = ks @ [k]" using assms(1) by (metis rev_exhaust)
  have c: "containers h obj (ks @ [k])" using assms(2) p by simp
  from reduce_walk[OF c]
  have r: "reduce (\<lambda>obj attr. if truthy obj then get_prop h obj attr else Return Null) ks obj
             = Return (walk h obj ks)"
    and hk: "holds h (walk h obj ks) k" by auto
  from hk obtain a where a: "walk h obj ks = Ref a" "a < length h" using holds_Ref by blast
  have ha: "holds h (Ref a) k" using hk a by simp
  have si: "setIn h obj path v = (Return True, written h a k v)"
    using r a set_prop_holds[OF ha, of v] p by (simp add: setIn_def)
  have "slot_of h (Ref a) k \<notin> set (slots h obj ks)" using assms(3) p a by simp
  from reduce_after_write[OF c ha this, of v]
  have "reduce (\<lambda>obj attr. if truthy obj then get_prop (written h a k v) obj attr else Return Null)
          ks obj = Return (Ref a)"
    using a by simp
  then have "getIn (written h a k v) obj path = Return v"
    using p get_prop_written[OF ha, of v] by (simp add: getIn_def reduce_append)
  with si show ?thesis by simp
qed

theorem setIn_getIn_witness:
  "containers [Obj [''a'' \<mapsto> Ref 0, ''b'' \<mapsto> JNum 1]] (Ref 0) [''a'', ''b''] \<and>
   fst (setIn [Obj [''a'' \<mapsto> Ref 0, ''b'' \<mapsto> JNum 1]] (Ref 0) [''a'', ''b''] (JNum 5))
     = Return True \<and>
   getIn (snd (setIn [Obj [''a'' \<mapsto> Ref 0, ''b'' \<mapsto> JNum 1]] (Ref 0) [''a'', ''b''] (JNum 5)))
     (Ref 0) [''a'', ''b''] = Return (JNum 5)"
proof -
  let ?h = "[Obj [''a'' \<mapsto> Ref 0, ''b'' \<mapsto> JNum 1]]"
  have p: "[''a'', ''b''] \<noteq> ([] :: string list)" by simp
  have c: "containers ?h (Ref 0) [''a'', ''b'']" by (simp add: child_of_def cell_at_def)
  have w: "slot_of ?h (walk ?h (Ref 0) (butlast [''a'', ''b''])) (last [''a'', ''b''])
             \<notin> set (slots ?h (Ref 0) (butlast [''a'', ''b'']))"
    by (simp add: child_of_def cell_at_def)
  from setIn_getIn[OF p c w, of "JNum 5"] c show ?thesis by simp
qed

section \<open>The identity registry over a run\<close>

subsection \<open>Operations that keep a property\<close>

lemma preserves_andThen:
  "preserves P m \<Longrightarrow> (\<And>x. preserves P (f x)) \<Longrightarrow> preserves P (andThen m f)"
  unfolding preserves_def andThen_def
  by (auto split: prod.splits outcome.splits)

lemma preserves_and_also:
  "preserves P m \<Longrightarrow> preserves P n \<Longrightarrow> preserves P (and_also m n)"
  unfolding and_also_def by (rule preserves_andThen) (auto simp: preserves_def ret_def)

lemma preserves_if:
  "(c \<Longrightarrow> preserves P m) \<Longrightarrow> (\<not> c \<Longrightarrow> preserves P n) \<Longrightarrow> preserves P (if c then m else n)"
  by simp

lemma preserves_ret: "preserves P (ret x)"
  by (simp add: preserves_def ret_def)

lemma preserves_mapM: "(\<And>x. preserves P (f x)) \<Longrightarrow> preserves P (mapM f xs)"
  by (induction xs) (auto intro!: preserves_andThen preserves_ret)

lemma preserves_call_map:
  assumes cb: "\<And>x. preserves P (cb x)" and al: "\<And>c. preserves P (alloc c)"
    and pr: "preserves P (prop_of recv ''map'')"
  shows "preserves P (call_map recv cb)"
proof -
  have m: "preserves P (andThen (mapM cb xs) (\<lambda>ys. alloc (Arr ys)))" for xs
    by (intro preserves_andThen preserves_mapM cb al)
  show ?thesis
    unfolding call_map_def
    apply (rule preserves_andThen[OF pr])
    apply (subst preserves_def)
    using m
    apply (auto simp: preserves_def split: jsval.splits callee.splits cell.splits)
    done
qed

lemma registry_only_prims:
  assumes "registry_only P"
  shows "preserves P (comps_get k)" "preserves P (nodes_get k)" "preserves P (nodes_set k v)"
    "preserves P (nodes_delete k)" "preserves P (roots_add k)" "preserves P (roots_delete k)"
    "preserves P (ids_has k)" "preserves P (ids_get k)" "preserves P (emit ev v)"
    "preserves P (console_warn msg)" "preserves P (console_log msg)" "preserves P (prop_of obj key)" "preserves P (assign_prop obj key v)"
    "preserves P (delete_prop obj key)" "preserves P (alloc c)" "preserves P (assign v)"
    "preserves P (call v)" "preserves P (setIn_js obj path v)" "preserves P (setReactInternals r)"
    "preserves P (ret x)"
  using assms unfolding registry_only_def preserves_def prims
  by (auto simp: Let_def split: prod.splits jsval.splits cell.splits callee.splits option.splits)

lemma preserves_store_and_send:
  assumes "registry_only P" "\<And>v. preserves P (getId v)"
  shows "preserves P (store_and_send ev c d)"
  unfolding store_and_send_def
  by (intro preserves_andThen preserves_and_also preserves_if preserves_call_map
        registry_only_prims[OF assms(1)] assms(2))

lemma preserves_getNodeForID:
  assumes "registry_only P"
  shows "preserves P (getNodeForID i)"
  unfolding getNodeForID_def
  apply (rule preserves_andThen)
   apply (rule registry_only_prims[OF assms])
  apply (auto simp: preserves_def split: option.splits)
  done

lemma preserves_highlight:
  assumes "registry_only P"
  shows "preserves P (highlight i)"
  unfolding highlight_def
  by (intro preserves_andThen preserves_if preserves_getNodeForID[OF assms]
        registry_only_prims[OF assms])

lemma preserves_methods:
  assumes "registry_only P" "\<And>v. preserves P (getId v)"
  shows "preserves P (addRoot v)" "preserves P (onMounted c d)" "preserves P (onUpdated c d)"
    "preserves P (setProps i p v)" "preserves P (setState i p v)" "preserves P (setContext i p v)"
    "preserves P (highlightMany is)" "preserves P (scrollToNode i)"
    "preserves P (selectFromDOMNode n q)" "preserves P (selectFromReactInstance n q)"
proof -
  note prim = registry_only_prims[OF assms(1)]
  note sas = preserves_store_and_send[OF assms]
  show "preserves P (addRoot v)"
    unfolding addRoot_def by (intro preserves_andThen prim assms(2))
  show "preserves P (onMounted c d)" "preserves P (onUpdated c d)"
    unfolding onMounted_def onUpdated_def by (rule sas)+
  have sf: "preserves P (set_field f m i p v)" for f m
    unfolding set_field_def onUpdated_def
    by (intro preserves_andThen preserves_and_also preserves_if prim sas)
  show "preserves P (setProps i p v)" "preserves P (setState i p v)" "preserves P (setContext i p v)"
    unfolding setProps_def setState_def setContext_def by (rule sf)+
  show "preserves P (highlightMany is)"
    unfolding highlightMany_def Let_def
    by (intro preserves_andThen preserves_if preserves_mapM preserves_getNodeForID[OF assms(1)] prim)
  show "preserves P (scrollToNode i)"
    unfolding scrollToNode_def
    by (intro preserves_andThen preserves_if preserves_highlight[OF assms(1)]
          preserves_getNodeForID[OF assms(1)] prim)
  have gi: "preserves P (getIDForNode n)"
    using assms(2) by (auto simp: preserves_def getIDForNode_def Let_def split: option.splits)
  show "preserves P (selectFromDOMNode n q)"
    unfolding selectFromDOMNode_def by (intro preserves_andThen preserves_if gi prim)
  show "preserves P (selectFromReactInstance n q)"
    unfolding selectFromReactInstance_def by (intro preserves_andThen preserves_if assms(2) prim)
qed

lemma preserves_onUnmounted:
  assumes "registry_only P" "\<And>v. preserves P (getId v)" "preserves P (ids_delete c)"
  shows "preserves P (onUnmounted c)"
  unfolding onUnmounted_def
  by (intro preserves_andThen registry_only_prims[OF assms(1)] assms(2) assms(3))


lemma registry_inv_only: "registry_only (registry_inv rnd N)"
  by (simp add: registry_only_def registry_inv_def)

lemma registry_inv_getId:
  assumes "inj_on rnd {..<N}"
  shows "preserves (registry_inv rnd N) (getId v)"
  unfolding preserves_def
proof (intro allI impI)
  fix b assume inv: "registry_inv rnd N b"
  show "registry_inv rnd N (snd (getId v b))"
  proof (cases "''object'' \<noteq> typeof v \<or> ids b v \<noteq> None")
    case True
    then show ?thesis using inv by (auto simp: getId_cases)
  next
    case False
    then have nv: "ids b v = None" and ob: "''object'' = typeof v" by auto
    show ?thesis
    proof (cases "is_object v")
      case False
      then show ?thesis using inv nv ob
        by (auto simp: getId_cases registry_inv_def less_Suc_eq)
    next
      case True
      let ?r = "JStr (rnd (drawn b))"
      have eq: "snd (getId v b) = b\<lparr>drawn := Suc (drawn b), ids := (ids b)(v \<mapsto> ?r),
                    comps := (comps b)(?r \<mapsto> v)\<rparr>"
        using inv nv ob True by (simp add: getId_cases registry_inv_def)
      show ?thesis
      proof (unfold registry_inv_def eq, intro conjI impI)
        show "math_random (b\<lparr>drawn := Suc (drawn b), ids := (ids b)(v \<mapsto> ?r), comps := (comps b)(?r \<mapsto> v)\<rparr>) = rnd"
          using inv by (simp add: registry_inv_def)
      next
        assume "drawn (b\<lparr>drawn := Suc (drawn b), ids := (ids b)(v \<mapsto> ?r), comps := (comps b)(?r \<mapsto> v)\<rparr>) \<le> N"
        then have lt: "drawn b < N" by simp
        with inv have a: "\<forall>x i. ids b x = Some i \<longrightarrow> comps b i = Some x"
          and d: "dom (comps b) \<subseteq> (\<lambda>k. JStr (rnd k)) ` {..<drawn b}"
          by (auto simp: registry_inv_def)
        have fresh: "?r \<notin> dom (comps b)"
        proof
          assume "?r \<in> dom (comps b)"
          with d obtain k where "k < drawn b" "rnd k = rnd (drawn b)" by auto
          with assms lt show False by (auto simp: inj_on_def)
        qed
        show "\<forall>x i. ids (b\<lparr>drawn := Suc (drawn b), ids := (ids b)(v \<mapsto> ?r), comps := (comps b)(?r \<mapsto> v)\<rparr>) x = Some i \<longrightarrow>
                 comps (b\<lparr>drawn := Suc (drawn b), ids := (ids b)(v \<mapsto> ?r), comps := (comps b)(?r \<mapsto> v)\<rparr>) i = Some x"
          using a fresh by auto
        show "dom (comps (b\<lparr>drawn := Suc (drawn b), ids := (ids b)(v \<mapsto> ?r), comps := (comps b)(?r \<mapsto> v)\<rparr>))
                \<subseteq> (\<lambda>k. JStr (rnd k)) ` {..<drawn (b\<lparr>drawn := Suc (drawn b), ids := (ids b)(v \<mapsto> ?r), comps := (comps b)(?r \<mapsto> v)\<rparr>)}"
          using d by (auto simp: less_Suc_eq)
      qed
    qed
  qed
qed

lemma registry_inv_ids_delete: "preserves (registry_inv rnd N) (ids_delete c)"
  by (auto simp: preserves_def registry_inv_def ids_delete_def)

lemma preserves_exec:
  assumes "registry_only P" "\<And>v. preserves P (getId v)"
    and "\<And>c. a = OnUnmounted c \<Longrightarrow> preserves P (ids_delete c)"
    and "P b"
  shows "P (exec a b)"
proof (cases a)
  case (OnUnmounted c)
  then show ?thesis
    using preserves_onUnmounted[OF assms(1,2) assms(3)[OF OnUnmounted]] assms(4)
    by (simp add: preserves_def)
next
  case (HostWrites h)
  then show ?thesis using assms(1,4) by (auto simp: registry_only_def)
next
  case (SetReactInternals r)
  have "preserves P (setReactInternals r)"
    using assms(1) by (simp add: registry_only_def preserves_def setReactInternals_def)
  then show ?thesis using SetReactInternals assms(4) by (simp add: preserves_def)
qed (use preserves_methods[OF assms(1,2)] preserves_highlight[OF assms(1)] assms(2,4) in \<open>simp_all add: preserves_def\<close>)

lemma preserves_run:
  assumes "registry_only P" "\<And>v. preserves P (getId v)"
    and "\<And>c. OnUnmounted c \<in> set as \<Longrightarrow> preserves P (ids_delete c)"
    and "P b"
  shows "P (run as b)"
  using assms(3,4) unfolding run_def
proof (induction as arbitrary: b)
  case Nil then show ?case by simp
next
  case (Cons a as)
  have "P (exec a b)" using preserves_exec[OF assms(1,2) _ Cons.prems(2)] Cons.prems(1) by auto
  then show ?case using Cons.IH Cons.prems(1) by simp
qed

lemma drawn_mono_getId: "preserves (\<lambda>b. n \<le> drawn b) (getId v)"
  by (auto simp: preserves_def getId_cases split: option.splits)

lemma registry_inv_init: "registry_inv rnd N (init h rnd)"
  by (simp add: registry_inv_def init_def)

lemma registry_inv_run:
  assumes "inj_on rnd {..<N}" "registry_inv rnd N b"
  shows "registry_inv rnd N (run as b)"
  by (rule preserves_run[OF registry_inv_only registry_inv_getId[OF assms(1)] registry_inv_ids_delete assms(2)])


text \<open>
  C1. The claim: in every reachable state \<^verbatim>\<open>comps\<close> maps an identifier to a handle exactly
  when \<^verbatim>\<open>ids\<close> maps that handle to that identifier, and \<^verbatim>\<open>getId\<close> and \<^verbatim>\<open>onUnmounted\<close> keep it
  so. \<^verbatim>\<open>onUnmounted\<close> deletes the handle from \<^verbatim>\<open>ids\<close> and nothing ever deletes from \<^verbatim>\<open>comps\<close>:
  after a mount and an unmount of a handle, \<^verbatim>\<open>comps\<close> still maps its identifier to it, and
  \<^verbatim>\<open>ids\<close> no longer knows the handle.
\<close>

theorem registry_not_inverse:
  "comps (run [OnMounted (Ref 0) (Ref 1), OnUnmounted (Ref 0)]
            (init [Obj Map.empty, Obj Map.empty] (\<lambda>n. ''a''))) (JStr ''a'') = Some (Ref 0) \<and>
   ids (run [OnMounted (Ref 0) (Ref 1), OnUnmounted (Ref 0)]
          (init [Obj Map.empty, Obj Map.empty] (\<lambda>n. ''a''))) (Ref 0) = None"
  by (simp add: meths getId_cases prims)

text \<open>
  C1, amended. In every state that a run of the Backend reaches from its constructor, if
  the identifiers drawn so far are pairwise distinct, then whenever \<^verbatim>\<open>ids\<close> maps a handle to
  an identifier, \<^verbatim>\<open>comps\<close> maps that identifier to that handle. (The converse is what
  \<^verbatim>\<open>onUnmounted\<close> gives up.)
\<close>

theorem registry_consistent:
  assumes "b = run as (init h rnd)" and "inj_on rnd {..<drawn b}" and "ids b x = Some i"
  shows "comps b i = Some x"
proof -
  have "registry_inv rnd (drawn b) b"
    unfolding assms(1) using registry_inv_run[OF _ registry_inv_init] assms(2) unfolding assms(1) by blast
  then show ?thesis using assms(3) by (simp add: registry_inv_def)
qed


theorem registry_consistent_witness:
  "ids (run [GetId (Ref 0), GetId (Ref 1)] (init [] (\<lambda>n. replicate n CHR ''a''))) (Ref 1)
     = Some (JStr ''a'') \<and>
   comps (run [GetId (Ref 0), GetId (Ref 1)] (init [] (\<lambda>n. replicate n CHR ''a''))) (JStr ''a'')
     = Some (Ref 1)"
proof -
  let ?b = "run [GetId (Ref 0), GetId (Ref 1)] (init [] (\<lambda>n. replicate n CHR ''a''))"
  have i: "inj_on (\<lambda>n. replicate n CHR ''a'') {..<drawn ?b}"
    by (rule inj_onI) (metis length_replicate)
  have r: "ids ?b (Ref 1) = Some (JStr ''a'')" by (simp add: meths getId_cases prims)
  from registry_consistent[OF refl i r] r show ?thesis by simp
qed

section \<open>Identifiers: order of an unmount, uniqueness, idempotence\<close>

lemma onUnmounted_tracked:
  "ids b (Ref a) = Some i \<Longrightarrow>
     onUnmounted (Ref a) b =
       (Return (),
        b\<lparr>nodes := (nodes b)(i := None), roots := roots b - {i},
          emitted := emitted b @ [(''unmount'', i,
             \<lparr>comps = comps b, ids = ids b, nodes = (nodes b)(i := None), roots = roots b - {i}\<rparr>)],
          ids := (ids b)(Ref a := None)\<rparr>)"
  by (simp add: onUnmounted_def andThen_def getId_cases prims tables.truncate_def)


text \<open>
  C2. For every tracked handle, \<^verbatim>\<open>onUnmounted\<close> returns normally and emits one event,
  \<^verbatim>\<open>unmount\<close> with the identifier of the handle; in the tables as the listeners find them
  the identifier is in neither \<^verbatim>\<open>nodes\<close> nor \<^verbatim>\<open>roots\<close> and \<^verbatim>\<open>ids\<close> still maps the handle to
  it; when \<^verbatim>\<open>onUnmounted\<close> has returned, \<^verbatim>\<open>ids\<close> no longer knows the handle.
\<close>

theorem onUnmounted_order:
  assumes "ids b (Ref a) = Some i"
  shows "\<exists>t. fst (onUnmounted (Ref a) b) = Return () \<and>
           emitted (snd (onUnmounted (Ref a) b)) = emitted b @ [(''unmount'', i, t)] \<and>
           nodes t i = None \<and> i \<notin> roots t \<and> ids t (Ref a) = Some i \<and>
           ids (snd (onUnmounted (Ref a) b)) (Ref a) = None \<and>
           nodes (snd (onUnmounted (Ref a) b)) i = None \<and>
           i \<notin> roots (snd (onUnmounted (Ref a) b))"
  using assms by (simp add: onUnmounted_tracked)

theorem onUnmounted_order_witness:
  "nodes (run [AddRoot (Ref 0), OnMounted (Ref 0) (Ref 1)]
            (init [Obj Map.empty, Obj Map.empty] (\<lambda>n. ''a''))) (JStr ''a'') = Some (Ref 1) \<and>
   JStr ''a'' \<in> roots (run [AddRoot (Ref 0), OnMounted (Ref 0) (Ref 1)]
            (init [Obj Map.empty, Obj Map.empty] (\<lambda>n. ''a''))) \<and>
   (\<exists>t. emitted (snd (onUnmounted (Ref 0) (run [AddRoot (Ref 0), OnMounted (Ref 0) (Ref 1)]
            (init [Obj Map.empty, Obj Map.empty] (\<lambda>n. ''a'')))))
          = emitted (run [AddRoot (Ref 0), OnMounted (Ref 0) (Ref 1)]
              (init [Obj Map.empty, Obj Map.empty] (\<lambda>n. ''a''))) @ [(''unmount'', JStr ''a'', t)] \<and>
        nodes t (JStr ''a'') = None \<and> JStr ''a'' \<notin> roots t \<and>
        ids t (Ref 0) = Some (JStr ''a'')) \<and>
   ids (snd (onUnmounted (Ref 0) (run [AddRoot (Ref 0), OnMounted (Ref 0) (Ref 1)]
            (init [Obj Map.empty, Obj Map.empty] (\<lambda>n. ''a''))))) (Ref 0) = None"
proof -
  let ?b = "run [AddRoot (Ref 0), OnMounted (Ref 0) (Ref 1)]
              (init [Obj Map.empty, Obj Map.empty] (\<lambda>n. ''a''))"
  have t: "ids ?b (Ref 0) = Some (JStr ''a'')" by (simp add: meths getId_cases prims)
  have n: "nodes ?b (JStr ''a'') = Some (Ref 1)" by (simp add: meths getId_cases prims)
  have r: "JStr ''a'' \<in> roots ?b" by (simp add: meths getId_cases prims)
  from onUnmounted_order[OF t] n r show ?thesis by blast
qed

lemma drawn_mono_run: "n \<le> drawn b \<Longrightarrow> n \<le> drawn (run as b)"
proof (rule preserves_run[where P = "\<lambda>b. n \<le> drawn b"])
  show "registry_only (\<lambda>b. n \<le> drawn b)" by (simp add: registry_only_def)
  show "preserves (\<lambda>b. n \<le> drawn b) (getId v)" for v by (rule drawn_mono_getId)
  show "preserves (\<lambda>b. n \<le> drawn b) (ids_delete c)" for c
    by (simp add: preserves_def ids_delete_def)
qed

lemma released_inv_only: "registry_only (released_inv rnd N k)"
  by (simp add: registry_only_def released_inv_def)

lemma released_inv_getId:
  assumes "inj_on rnd {..<N}"
  shows "preserves (released_inv rnd N k) (getId v)"
  unfolding preserves_def
proof (intro allI impI)
  fix b assume inv: "released_inv rnd N k b"
  have "rnd (drawn b) \<noteq> rnd k" if "Suc (drawn b) \<le> N" "k < drawn b"
  proof
    assume "rnd (drawn b) = rnd k"
    moreover have "drawn b \<in> {..<N}" "k \<in> {..<N}" using that by auto
    ultimately have "drawn b = k" using assms by (meson inj_onD)
    with that show False by simp
  qed
  then show "released_inv rnd N k (snd (getId v b))"
    using inv by (auto simp: getId_cases released_inv_def split: option.splits)
qed

lemma released_inv_ids_delete: "preserves (released_inv rnd N k) (ids_delete c)"
  by (auto simp: preserves_def released_inv_def ids_delete_def)

lemma released_inv_run:
  assumes "inj_on rnd {..<N}" "released_inv rnd N k b"
  shows "released_inv rnd N k (run as b)"
  by (rule preserves_run[OF released_inv_only released_inv_getId[OF assms(1)] released_inv_ids_delete assms(2)])


text \<open>
  C8. The claim: generated identifiers are unique, and a handle registered again after it
  was forgotten gets an identifier different from the first. \<^verbatim>\<open>randid\<close> returns digits of
  \<^verbatim>\<open>Math.random()\<close> and \<^verbatim>\<open>getId\<close> stores them unchecked: when the supply gives the same
  string twice, two handles tracked at the same time have the same identifier, and a handle
  registered again after its unmount gets its old identifier back.
\<close>

theorem identifiers_collide:
  "ids (run [GetId (Ref 0), GetId (Ref 1)] (init [] (\<lambda>n. ''a''))) (Ref 0) = Some (JStr ''a'') \<and>
   ids (run [GetId (Ref 0), GetId (Ref 1)] (init [] (\<lambda>n. ''a''))) (Ref 1) = Some (JStr ''a'') \<and>
   fst (getId (Ref 0) (init [] (\<lambda>n. ''a''))) = Return (JStr ''a'') \<and>
   fst (getId (Ref 0) (run [GetId (Ref 0), OnUnmounted (Ref 0)] (init [] (\<lambda>n. ''a''))))
     = Return (JStr ''a'')"
  by (simp add: meths getId_cases prims)

text \<open>
  C8, amended. Take a state \<open>b\<close> that a run reaches from the constructor and in which a
  handle is tracked with identifier \<open>i\<close>, unmount the handle and let the Backend run on to
  \<open>b'\<close>. If the identifiers drawn up to \<open>b'\<close> and the next one are pairwise distinct, then no
  other handle has \<open>i\<close> in \<open>b\<close>, no handle has \<open>i\<close> in \<open>b'\<close>, and \<^verbatim>\<open>getId\<close> in \<open>b'\<close> returns
  \<open>i\<close> for no handle, the forgotten one included.
\<close>

theorem identifiers_unique:
  assumes "b = run as (init h rnd)"
    and "ids b (Ref a) = Some i"
    and "b' = run as' (snd (onUnmounted (Ref a) b))"
    and "inj_on rnd {..drawn b'}"
  shows "(\<forall>y j. y \<noteq> Ref a \<longrightarrow> ids b y = Some j \<longrightarrow> j \<noteq> i) \<and>
         (\<forall>y. ids b' y \<noteq> Some i) \<and>
         (\<forall>a'. fst (getId (Ref a') b') \<noteq> Return i)"
proof -
  let ?N = "Suc (drawn b')"
  let ?b1 = "snd (onUnmounted (Ref a) b)"
  have inj: "inj_on rnd {..<?N}" using assms(4) by (simp add: lessThan_Suc_atMost)
  have inv: "registry_inv rnd ?N b"
    unfolding assms(1) by (rule registry_inv_run[OF inj registry_inv_init])
  have rb: "math_random b = rnd" using inv by (simp add: registry_inv_def)
  have b1: "?b1 = b\<lparr>nodes := (nodes b)(i := None), roots := roots b - {i},
          emitted := emitted b @ [(''unmount'', i,
             \<lparr>comps = comps b, ids = ids b, nodes = (nodes b)(i := None), roots = roots b - {i}\<rparr>)],
          ids := (ids b)(Ref a := None)\<rparr>"
    using onUnmounted_tracked[OF assms(2)] by simp
  have d1: "drawn ?b1 = drawn b" by (simp add: b1)
  have "drawn ?b1 \<le> drawn b'" unfolding assms(3) by (rule drawn_mono_run) simp
  then have le: "drawn b \<le> ?N" using d1 by simp
  from inv le have rt: "\<forall>x j. ids b x = Some j \<longrightarrow> comps b j = Some x"
    and dom: "dom (comps b) \<subseteq> (\<lambda>k. JStr (rnd k)) ` {..<drawn b}"
    by (auto simp: registry_inv_def)
  have ci: "comps b i = Some (Ref a)" using rt assms(2) by blast
  then obtain k where k: "k < drawn b" "i = JStr (rnd k)" using dom by auto
  have uniq: "\<forall>y j. y \<noteq> Ref a \<longrightarrow> ids b y = Some j \<longrightarrow> j \<noteq> i"
  proof (intro allI impI)
    fix y j assume "y \<noteq> Ref a" "ids b y = Some j"
    then have "comps b j = Some y" using rt by blast
    with ci \<open>y \<noteq> Ref a\<close> show "j \<noteq> i" by auto
  qed
  have "released_inv rnd ?N k ?b1"
    using uniq k rb assms(2) by (auto simp: released_inv_def b1)
  from released_inv_run[OF inj this, of as']
  have rel: "released_inv rnd ?N k b'" unfolding assms(3) .
  then have none: "\<forall>y. ids b' y \<noteq> Some i" and kb: "k < drawn b'" and rb': "math_random b' = rnd"
    using k by (auto simp: released_inv_def)
  have "rnd (drawn b') \<noteq> rnd k"
  proof
    assume "rnd (drawn b') = rnd k"
    moreover have "drawn b' \<in> {..drawn b'}" "k \<in> {..drawn b'}" using kb by auto
    ultimately have "drawn b' = k" using assms(4) by (meson inj_onD)
    with kb show False by simp
  qed
  then have "\<forall>a'. fst (getId (Ref a') b') \<noteq> Return i"
    using none k rb' by (auto simp: getId_cases split: option.splits)
  with uniq none show ?thesis by blast
qed


theorem identifiers_unique_witness:
  "ids (run [GetId (Ref 0), GetId (Ref 1)] (init [] (\<lambda>n. replicate n CHR ''a''))) (Ref 0)
     = Some (JStr []) \<and>
   ids (run [GetId (Ref 0), GetId (Ref 1)] (init [] (\<lambda>n. replicate n CHR ''a''))) (Ref 1)
     = Some (JStr ''a'') \<and>
   fst (getId (Ref 0) (run [GetId (Ref 1)] (snd (onUnmounted (Ref 0)
     (run [GetId (Ref 0), GetId (Ref 1)] (init [] (\<lambda>n. replicate n CHR ''a'')))))))
     \<noteq> Return (JStr [])"
proof -
  let ?b = "run [GetId (Ref 0), GetId (Ref 1)] (init [] (\<lambda>n. replicate n CHR ''a''))"
  let ?b' = "run [GetId (Ref 1)] (snd (onUnmounted (Ref 0) ?b))"
  have t: "ids ?b (Ref 0) = Some (JStr [])" by (simp add: meths getId_cases prims)
  have u: "ids ?b (Ref 1) = Some (JStr ''a'')" by (simp add: meths getId_cases prims)
  have i: "inj_on (\<lambda>n. replicate n CHR ''a'') {..drawn ?b'}"
    by (rule inj_onI) (metis length_replicate)
  from identifiers_unique[OF refl t refl i] t u show ?thesis by blast
qed

text \<open>
  C9. Once \<^verbatim>\<open>getId\<close> has returned an identifier for a handle, then after any further run of
  the Backend in which the handle is not unmounted, \<^verbatim>\<open>getId\<close> on the handle returns the
  same identifier and leaves the whole state, the registry maps included, as it is.
\<close>

theorem getId_idempotent:
  assumes "getId (Ref a) b = (Return i, b1)"
    and "OnUnmounted (Ref a) \<notin> set as"
  shows "getId (Ref a) (run as b1) = (Return i, run as b1)"
proof -
  have t: "ids b1 (Ref a) = Some i"
    using assms(1) by (auto simp: getId_cases split: option.splits)
  have "ids (run as b1) (Ref a) = Some i"
  proof (rule preserves_run[where P = "\<lambda>b. ids b (Ref a) = Some i"])
    show "registry_only (\<lambda>b. ids b (Ref a) = Some i)" by (simp add: registry_only_def)
    show "preserves (\<lambda>b. ids b (Ref a) = Some i) (getId v)" for v
      by (auto simp: preserves_def getId_cases split: option.splits)
    show "preserves (\<lambda>b. ids b (Ref a) = Some i) (ids_delete c)" if "OnUnmounted c \<in> set as" for c
      using that assms(2) by (auto simp: preserves_def ids_delete_def)
    show "ids b1 (Ref a) = Some i" by (rule t)
  qed
  then show ?thesis by (simp add: getId_cases)
qed


theorem getId_idempotent_witness:
  "getId (Ref 0) (run [AddRoot (Ref 1), OnUnmounted (Ref 1)]
                    (snd (getId (Ref 0) (init [] (\<lambda>n. ''a'')))))
     = (Return (JStr ''a''),
        run [AddRoot (Ref 1), OnUnmounted (Ref 1)] (snd (getId (Ref 0) (init [] (\<lambda>n. ''a'')))))"
proof -
  have g: "getId (Ref 0) (init [] (\<lambda>n. ''a''))
             = (Return (JStr ''a''), snd (getId (Ref 0) (init [] (\<lambda>n. ''a''))))"
    by (simp add: getId_cases init_def)
  have n: "OnUnmounted (Ref 0) \<notin> set [AddRoot (Ref 1), OnUnmounted (Ref 1)]" by simp
  from getId_idempotent[OF g n] show ?thesis .
qed

section \<open>Mount and update: the outbound message and the stored snapshot\<close>

lemma andThen_assoc: "andThen (andThen m f) g = andThen m (\<lambda>x. andThen (f x) g)"
  by (rule ext) (simp add: andThen_def split: prod.splits outcome.splits)

lemma store_and_send_steps:
  "store_and_send ev c d =
     andThen (getId c) (\<lambda>i.
     andThen (nodes_set i d) (\<lambda>_.
     andThen (assign d) (\<lambda>send.
     andThen (rewrite_children send) (\<lambda>_.
     finish_message ev i send))))"
  by (simp add: store_and_send_def rewrite_children_def finish_message_def andThen_assoc)

lemma get_prop_valid: "valid h v \<Longrightarrow> get_prop (h @ xs) v k = get_prop h v k"
  by (cases v) (auto simp: cell_at_def nth_append)

lemma plain_keys:
  "plain_key ''children''" "plain_key ''updater''" "plain_key ''forceUpdate''"
  "plain_key ''type''" "plain_key ''props''" "plain_key ''state''" "plain_key ''context''"
  by (simp_all add: plain_key_def names)

lemma get_prop_plain_key:
  "plain_key k \<Longrightarrow> v \<noteq> Undefined \<Longrightarrow> v \<noteq> Null \<Longrightarrow> get_prop h v k = Return (child_of h v k)"
proof (cases v)
  case (Ref a)
  assume "plain_key k"
  then have "\<not> inherited (cell_at h a) k"
    by (cases "cell_at h a") (auto simp: plain_key_def)
  then show ?thesis using Ref by (simp add: child_of_def)
qed (auto simp: child_of_def plain_key_def)

lemma truthy_get_prop:
  "plain_key k \<Longrightarrow> truthy v \<Longrightarrow> get_prop h v k = Return (child_of h v k)"
  by (rule get_prop_plain_key) auto

lemma truthy_get_map: "truthy v \<Longrightarrow> get_prop h v ''map'' = Return (child_of h v ''map'')"
proof (cases v)
  case (Ref a)
  have "\<not> inherited (cell_at h a) ''map''"
    by (cases "cell_at h a") (auto simp: names)
  then show ?thesis using Ref by (simp add: child_of_def)
qed (auto simp: child_of_def names)

lemma finish_message_eval:
  assumes "heap b = h @ Obj ps # rest" and "valid h (own (Obj ps) ''updater'')"
  shows "finish_message ev i (Ref (length h)) b =
           (Return (),
            b\<lparr>heap := h @ Obj ((ps(''id'' \<mapsto> i,
                                     ''canUpdate'' \<mapsto> can_update h (own (Obj ps) ''updater'')))
                                   (''type'' := None, ''updater'' := None)) # rest,
              emitted := emitted b @ [(ev, Ref (length h), tables.truncate b)]\<rparr>)"
proof -
  let ?u = "own (Obj ps) ''updater''"
  have u: "truthy ?u \<Longrightarrow> get_prop (h @ Obj (ps(''id'' \<mapsto> i)) # rest) ?u ''forceUpdate''
             = Return (child_of h ?u ''forceUpdate'')"
    using get_prop_valid[OF assms(2)] truthy_get_prop[OF plain_keys(3)] by simp
  show ?thesis
    using assms(1) u plain_keys
    by (cases "truthy ?u")
       (simp_all add: finish_message_def andThen_def and_also_def prims cell_at_def
          can_update_def to_bool_def tables.truncate_def nth_append plain_key_def)
qed

lemma rewrite_children_skip:
  assumes "heap b = h @ [Obj ps]" and "valid h (own (Obj ps) ''children'')"
    and "\<not> sequence_valued h (own (Obj ps) ''children'')"
  shows "rewrite_children (Ref (length h)) b = (Return (), b)"
proof -
  let ?c = "own (Obj ps) ''children''"
  have "truthy ?c \<Longrightarrow> get_prop (h @ [Obj ps]) ?c ''map'' = Return (child_of h ?c ''map'')"
    using get_prop_valid[OF assms(2)] truthy_get_map by simp
  then show ?thesis
    using assms(1,3) plain_keys
    by (cases "truthy ?c")
       (simp_all add: rewrite_children_def andThen_def and_also_def prims cell_at_def
          sequence_valued_def plain_key_def)
qed

lemma grown_refl: "grown b b"
  by (simp add: grown_def)

lemma grown_trans: "grown b b1 \<Longrightarrow> grown b1 b2 \<Longrightarrow> grown b b2"
  by (simp add: grown_def)

lemma grown_getId: "grown b (snd (getId v b))"
  by (auto simp: grown_def getId_cases split: option.splits)

lemma settled_getId: "settled b x y \<Longrightarrow> getId x b = (Return y, b)"
  by (simp add: settled_def getId_cases split: if_splits)

lemma getId_settles:
  "v \<noteq> Null \<Longrightarrow> \<exists>y b1. getId v b = (Return y, b1) \<and> settled b1 v y \<and> grown b b1"
  by (cases v) (auto simp: getId_cases settled_def grown_def split: option.splits)

lemma settled_grown: "settled b x y \<Longrightarrow> grown b b' \<Longrightarrow> settled b' x y"
  by (auto simp: settled_def grown_def)

lemma mapM_getId:
  "Null \<notin> set xs \<Longrightarrow>
     \<exists>ys b'. mapM getId xs b = (Return ys, b') \<and> length ys = length xs \<and> grown b b' \<and>
       (\<forall>k<length xs. settled b' (xs ! k) (ys ! k))"
proof (induction xs arbitrary: b)
  case Nil
  then show ?case by (simp add: ret_def grown_refl)
next
  case (Cons x xs)
  from Cons.prems have "x \<noteq> Null" by auto
  from getId_settles[OF this, of b] obtain y b1 where
    g1: "getId x b = (Return y, b1)" and y: "settled b1 x y" and gb: "grown b b1" by blast
  from Cons.prems have "Null \<notin> set xs" by auto
  from Cons.IH[OF this, of b1] obtain ys b' where
    m: "mapM getId xs b1 = (Return ys, b')" "length ys = length xs" "grown b1 b'"
       "\<forall>k<length xs. settled b' (xs ! k) (ys ! k)" by blast
  have r: "mapM getId (x # xs) b = (Return (y # ys), b')"
    using g1 m(1) by (simp add: andThen_def ret_def)
  have g: "grown b b'" using grown_trans[OF gb m(3)] .
  have s: "\<forall>k<length (x # xs). settled b' ((x # xs) ! k) ((y # ys) ! k)"
  proof (intro allI impI)
    fix k assume "k < length (x # xs)"
    then show "settled b' ((x # xs) ! k) ((y # ys) ! k)"
      using settled_grown[OF y m(3)] m(4) by (cases k) auto
  qed
  show ?case using r m(2) g s by (intro exI[of _ "y # ys"] exI[of _ b']) simp
qed

lemma elements_Some:
  "elements h c = Some xs \<Longrightarrow>
     \<exists>a. c = Ref a \<and> a < length h \<and> (h ! a = Arr xs \<or> h ! a = LockedArr xs)"
  by (auto simp: elements_def split: jsval.splits if_splits cell.splits)

lemma elements_sequence_valued: "elements h c = Some xs \<Longrightarrow> sequence_valued h c"
  by (auto dest!: elements_Some simp: sequence_valued_def child_of_def cell_at_def)

lemma rewrite_children_array:
  assumes "heap b = h @ [Obj ps]" and "elements h (own (Obj ps) ''children'') = Some xs"
    and "mapM getId xs b = (Return ys, b')" and "grown b b'"
  shows "rewrite_children (Ref (length h)) b =
           (Return (), b'\<lparr>heap := h @ [Obj (ps(''children'' \<mapsto> Ref (Suc (length h)))), Arr ys]\<rparr>)"
proof -
  from elements_Some[OF assms(2)] obtain a where
    a: "own (Obj ps) ''children'' = Ref a" "a < length h" "h ! a = Arr xs \<or> h ! a = LockedArr xs"
    by blast
  have hb': "heap b' = h @ [Obj ps]" using assms(1,4) by (simp add: grown_def)
  have c: "''children'' \<noteq> ''__proto__''" by simp
  from a(3) show ?thesis
    using assms(1,3) a(1,2) hb' plain_keys
    by (auto simp: rewrite_children_def andThen_def and_also_def prims cell_at_def
          call_map_def nth_append plain_key_def)
qed

lemma settled_ids: "settled b x y \<Longrightarrow> ids b' = ids b \<Longrightarrow> settled b' x y"
  by (simp add: settled_def)

lemma store_and_send_prefix:
  assumes "getId c b = (Return i, b1)"
  shows "store_and_send ev c d b =
           andThen (assign d)
             (\<lambda>send. andThen (rewrite_children send) (\<lambda>_. finish_message ev i send))
             (b1\<lparr>nodes := (nodes b1)(i \<mapsto> d)\<rparr>)"
  using assms
  by (simp add: store_and_send_steps andThen_def[of "getId c"] andThen_def[of "nodes_set i d"]
        nodes_set_def)

lemma assign_plain:
  "enumerable (heap b) d ''__proto__'' = None \<Longrightarrow>
     assign d b = (Return (Ref (length (heap b))), b\<lparr>heap := heap b @ [Obj (enumerable (heap b) d)]\<rparr>)"
  by (simp add: assign_def alloc_def)

lemma assign_cases:
  "assign d b = (Beyond, b) \<or>
   (\<exists>ps. assign d b = (Return (Ref (length (heap b))), b\<lparr>heap := heap b @ [Obj ps]\<rparr>))"
  by (auto simp: assign_def alloc_def Let_def split: option.splits)

lemma store_and_send_message:
  assumes g: "fst (getId c b) = Return i"
    and ps: "ps = enumerable (heap b) d"
    and np: "ps ''__proto__'' = None"
    and vc: "valid (heap b) (own (Obj ps) ''children'')"
    and vu: "valid (heap b) (own (Obj ps) ''updater'')"
    and sq: "\<not> sequence_valued (heap b) (own (Obj ps) ''children'') \<or>
         (\<exists>xs. elements (heap b) (own (Obj ps) ''children'') = Some xs \<and> Null \<notin> set xs)"
    and b': "b' = snd (store_and_send ev c d b)" and s: "s = length (heap b)"
  shows "\<exists>msg t. fst (store_and_send ev c d b) = Return () \<and>
      emitted b' = emitted b @ [(ev, Ref s, t)] \<and>
      s < length (heap b') \<and> heap b' ! s = Obj msg \<and>
      msg ''id'' = Some i \<and>
      msg ''canUpdate'' = Some (can_update (heap b) (own (Obj ps) ''updater'')) \<and>
      msg ''type'' = None \<and> msg ''updater'' = None \<and>
      (\<forall>k. k \<notin> {''id'', ''canUpdate'', ''type'', ''updater'', ''children''} \<longrightarrow> msg k = ps k) \<and>
      (case elements (heap b) (own (Obj ps) ''children'') of
         Some xs \<Rightarrow>
           \<exists>ys. msg ''children'' = Some (Ref (Suc s)) \<and> Suc s < length (heap b') \<and>
             heap b' ! Suc s = Arr ys \<and> length ys = length xs \<and>
             (\<forall>k<length xs. getId (xs ! k) b' = (Return (ys ! k), b'))
       | None \<Rightarrow> msg ''children'' = ps ''children'')"
proof -
  define b1 where "b1 = snd (getId c b)"
  define h where "h = heap b"
  have g1: "getId c b = (Return i, b1)" using g by (simp add: b1_def prod_eq_iff)
  have gr: "grown b b1" unfolding b1_def by (rule grown_getId)
  have hb1: "heap b1 = h" using gr by (simp add: grown_def h_def)
  define b3 where "b3 = b1\<lparr>nodes := (nodes b1)(i \<mapsto> d), heap := h @ [Obj ps]\<rparr>"
  have run: "store_and_send ev c d b =
      andThen (rewrite_children (Ref (length h))) (\<lambda>_. finish_message ev i (Ref (length h))) b3"
    using store_and_send_prefix[OF g1, of ev d]
      assign_plain[of "b1\<lparr>nodes := (nodes b1)(i \<mapsto> d)\<rparr>" d] np
    by (simp add: hb1 b3_def ps h_def andThen_def[of "assign d"])
  have h3: "heap b3 = h @ [Obj ps]" by (simp add: b3_def)
  have e3: "emitted b3 = emitted b" using gr by (simp add: b3_def grown_def)
  let ?u = "own (Obj ps) ''updater''"
  let ?can = "can_update h ?u"
  show ?thesis
  proof (cases "elements h (own (Obj ps) ''children'')")
    case None
    then have "\<not> sequence_valued h (own (Obj ps) ''children'')" using sq by (simp add: h_def)
    from rewrite_children_skip[OF h3 vc[folded h_def] this]
    have r: "rewrite_children (Ref (length h)) b3 = (Return (), b3)" .
    let ?msg = "(ps(''id'' \<mapsto> i, ''canUpdate'' \<mapsto> ?can))(''type'' := None, ''updater'' := None)"
    have f: "store_and_send ev c d b =
        (Return (), b3\<lparr>heap := h @ [Obj ?msg],
           emitted := emitted b3 @ [(ev, Ref (length h), tables.truncate b3)]\<rparr>)"
      using finish_message_eval[OF h3 vu[folded h_def], of ev i] r
      by (simp add: run andThen_def)
    show ?thesis
      using None e3
      by (intro exI[of _ ?msg] exI[of _ "tables.truncate b3"])
         (simp add: b' s f h_def[symmetric])
  next
    case (Some xs)
    then have nn: "Null \<notin> set xs"
      using sq elements_sequence_valued[of h "own (Obj ps) ''children''" xs] by (auto simp: h_def)
    from mapM_getId[OF nn, of b3] obtain ys b4 where
      m: "mapM getId xs b3 = (Return ys, b4)" and ly: "length ys = length xs"
      and g4: "grown b3 b4" and st: "\<forall>k<length xs. settled b4 (xs ! k) (ys ! k)" by blast
    let ?ps' = "ps(''children'' \<mapsto> Ref (Suc (length h)))"
    let ?b5 = "b4\<lparr>heap := h @ [Obj ?ps', Arr ys]\<rparr>"
    from rewrite_children_array[OF h3 Some m g4]
    have r: "rewrite_children (Ref (length h)) b3 = (Return (), ?b5)" .
    have h5: "heap ?b5 = h @ Obj ?ps' # [Arr ys]" by simp
    have vu': "valid h (own (Obj ?ps') ''updater'')" using vu by (simp add: h_def)
    let ?msg = "(?ps'(''id'' \<mapsto> i, ''canUpdate'' \<mapsto> ?can))(''type'' := None, ''updater'' := None)"
    let ?b6 = "?b5\<lparr>heap := h @ [Obj ?msg, Arr ys],
           emitted := emitted ?b5 @ [(ev, Ref (length h), tables.truncate ?b5)]\<rparr>"
    have f: "store_and_send ev c d b = (Return (), ?b6)"
      using finish_message_eval[OF h5 vu', of ev i] r
      by (simp add: run andThen_def)
    have e5: "emitted b4 = emitted b" using g4 e3 by (simp add: grown_def)
    have gs: "\<forall>k<length xs. getId (xs ! k) ?b6 = (Return (ys ! k), ?b6)"
    proof (intro allI impI)
      fix k assume "k < length xs"
      then have "settled b4 (xs ! k) (ys ! k)" using st by blast
      then have "settled ?b6 (xs ! k) (ys ! k)" by (rule settled_ids) simp
      then show "getId (xs ! k) ?b6 = (Return (ys ! k), ?b6)" by (rule settled_getId)
    qed
    have ch: "\<exists>ys'. ?msg ''children'' = Some (Ref (Suc (length h))) \<and>
               Suc (length h) < length (heap ?b6) \<and> heap ?b6 ! Suc (length h) = Arr ys' \<and>
               length ys' = length xs \<and>
               (\<forall>k<length xs. getId (xs ! k) ?b6 = (Return (ys' ! k), ?b6))"
      using ly gs by (intro exI[of _ ys]) (simp add: nth_append)
    have b6: "b' = ?b6" using f by (simp add: b')
    show ?thesis
      unfolding b6 s h_def[symmetric] f
      using Some e5 ch
      by (intro exI[of _ ?msg] exI[of _ "tables.truncate ?b5"]) (simp add: nth_append)
  qed
qed

text \<open>
  C4. The claim: the message of a mount or an update is a copy of the snapshot with the id,
  the children replaced by their identifiers, \<^verbatim>\<open>canUpdate\<close> equal to the boolean "updater
  present and supports the update trigger", and no \<^verbatim>\<open>type\<close> or \<^verbatim>\<open>updater\<close>. The code computes
  \<^verbatim>\<open>send.updater && !!send.updater.forceUpdate\<close>: for a snapshot without an updater
  \<^verbatim>\<open>canUpdate\<close> is \<^verbatim>\<open>undefined\<close>, not \<^verbatim>\<open>false\<close>.
\<close>

theorem canUpdate_not_boolean:
  "fst (onMounted (Ref 0) (Ref 1) (init [Obj Map.empty, Obj [''name'' \<mapsto> JStr ''Foo'']] (\<lambda>n. ''a'')))
     = Return () \<and>
   map fst (emitted (snd (onMounted (Ref 0) (Ref 1)
     (init [Obj Map.empty, Obj [''name'' \<mapsto> JStr ''Foo'']] (\<lambda>n. ''a''))))) = [''mount''] \<and>
   map (fst \<circ> snd) (emitted (snd (onMounted (Ref 0) (Ref 1)
     (init [Obj Map.empty, Obj [''name'' \<mapsto> JStr ''Foo'']] (\<lambda>n. ''a''))))) = [Ref 2] \<and>
   (case heap (snd (onMounted (Ref 0) (Ref 1)
        (init [Obj Map.empty, Obj [''name'' \<mapsto> JStr ''Foo'']] (\<lambda>n. ''a'')))) ! 2 of
      Obj msg \<Rightarrow> msg ''canUpdate'' | _ \<Rightarrow> None) = Some Undefined"
  by (simp add: meths getId_cases prims)

text \<open>
  C4, amended. Take a mount or update of a handle for which \<^verbatim>\<open>getId\<close> returns, with a
  snapshot that has no own property \<^verbatim>\<open>__proto__\<close>, whose \<^verbatim>\<open>children\<close> and \<^verbatim>\<open>updater\<close> are
  valid and whose \<^verbatim>\<open>children\<close>, when sequence-valued, are an array without \<^verbatim>\<open>null\<close>. Then
  the method returns and emits one event,
  whose payload is a new object \<open>msg\<close> with: \<^verbatim>\<open>id\<close> the identifier; \<^verbatim>\<open>canUpdate\<close> the value of
  \<^verbatim>\<open>updater && !!updater.forceUpdate\<close> (a boolean when the updater is truthy, the falsy
  updater itself otherwise); no \<^verbatim>\<open>type\<close> and no \<^verbatim>\<open>updater\<close>; every other property but
  \<^verbatim>\<open>children\<close> as in the snapshot; and \<^verbatim>\<open>children\<close>, for an array, a new array of the same
  length whose elements are what \<^verbatim>\<open>getId\<close> returns for the children, and as in the snapshot
  otherwise.
\<close>

theorem outbound_message:
  assumes "(m, ev) = (onMounted, ''mount'') \<or> (m, ev) = (onUpdated, ''update'')"
    and "fst (getId c b) = Return i"
    and "ps = enumerable (heap b) d"
    and "ps ''__proto__'' = None"
    and "valid (heap b) (own (Obj ps) ''children'')"
    and "valid (heap b) (own (Obj ps) ''updater'')"
    and "\<not> sequence_valued (heap b) (own (Obj ps) ''children'') \<or>
         (\<exists>xs. elements (heap b) (own (Obj ps) ''children'') = Some xs \<and> Null \<notin> set xs)"
    and "b' = snd (m c d b)" and "s = length (heap b)"
  shows "\<exists>msg t. fst (m c d b) = Return () \<and>
      emitted b' = emitted b @ [(ev, Ref s, t)] \<and>
      s < length (heap b') \<and> heap b' ! s = Obj msg \<and>
      msg ''id'' = Some i \<and>
      msg ''canUpdate'' = Some (can_update (heap b) (own (Obj ps) ''updater'')) \<and>
      msg ''type'' = None \<and> msg ''updater'' = None \<and>
      (\<forall>k. k \<notin> {''id'', ''canUpdate'', ''type'', ''updater'', ''children''} \<longrightarrow> msg k = ps k) \<and>
      (case elements (heap b) (own (Obj ps) ''children'') of
         Some xs \<Rightarrow>
           \<exists>ys. msg ''children'' = Some (Ref (Suc s)) \<and> Suc s < length (heap b') \<and>
             heap b' ! Suc s = Arr ys \<and> length ys = length xs \<and>
             (\<forall>k<length xs. getId (xs ! k) b' = (Return (ys ! k), b'))
       | None \<Rightarrow> msg ''children'' = ps ''children'')"
proof -
  have m: "m = store_and_send ev"
    using assms(1) by (auto simp: onMounted_def onUpdated_def fun_eq_iff)
  show ?thesis
    unfolding m
    by (rule store_and_send_message[OF assms(2,3,4,5,6,7) assms(8)[unfolded m] assms(9)])
qed

theorem outbound_message_witness:
  "\<exists>msg ys.
     heap (snd (onMounted (Ref 0) (Ref 1) (init [Obj Map.empty,
         Obj [''name'' \<mapsto> JStr ''Foo'', ''type'' \<mapsto> JStr ''T'', ''props'' \<mapsto> Ref 2,
              ''updater'' \<mapsto> Ref 3, ''children'' \<mapsto> Ref 4],
         Obj [''x'' \<mapsto> JNum 1],
         Obj [''forceUpdate'' \<mapsto> Fun (Host 0)],
         Arr [Ref 5, JStr ''text''],
         Obj Map.empty] (\<lambda>n. ''a'')))) ! 6 = Obj msg \<and>
     msg ''id'' = Some (JStr ''a'') \<and> msg ''canUpdate'' = Some (JBool True) \<and>
     msg ''type'' = None \<and> msg ''updater'' = None \<and>
     msg ''name'' = Some (JStr ''Foo'') \<and> msg ''props'' = Some (Ref 2) \<and>
     msg ''children'' = Some (Ref 7) \<and>
     heap (snd (onMounted (Ref 0) (Ref 1) (init [Obj Map.empty,
         Obj [''name'' \<mapsto> JStr ''Foo'', ''type'' \<mapsto> JStr ''T'', ''props'' \<mapsto> Ref 2,
              ''updater'' \<mapsto> Ref 3, ''children'' \<mapsto> Ref 4],
         Obj [''x'' \<mapsto> JNum 1],
         Obj [''forceUpdate'' \<mapsto> Fun (Host 0)],
         Arr [Ref 5, JStr ''text''],
         Obj Map.empty] (\<lambda>n. ''a'')))) ! 7 = Arr ys \<and>
     length ys = 2"
proof -
  let ?h = "[Obj Map.empty,
         Obj [''name'' \<mapsto> JStr ''Foo'', ''type'' \<mapsto> JStr ''T'', ''props'' \<mapsto> Ref 2,
              ''updater'' \<mapsto> Ref 3, ''children'' \<mapsto> Ref 4],
         Obj [''x'' \<mapsto> JNum 1],
         Obj [''forceUpdate'' \<mapsto> Fun (Host 0)],
         Arr [Ref 5, JStr ''text''],
         Obj Map.empty]"
  let ?b = "init ?h (\<lambda>n. ''a'')"
  let ?ps = "[''name'' \<mapsto> JStr ''Foo'', ''type'' \<mapsto> JStr ''T'', ''props'' \<mapsto> Ref 2,
              ''updater'' \<mapsto> Ref 3, ''children'' \<mapsto> Ref 4]"
  let ?b' = "snd (onMounted (Ref 0) (Ref 1) ?b)"
  have 1: "(onMounted, ''mount'') = (onMounted, ''mount'') \<or> (onMounted, ''mount'') = (onUpdated, ''update'')"
    by simp
  have 2: "fst (getId (Ref 0) ?b) = Return (JStr ''a'')" by (simp add: getId_cases init_def)
  have 3: "?ps = enumerable (heap ?b) (Ref 1)" by (simp add: enumerable_def init_def cell_at_def)
  have 7: "?ps ''__proto__'' = None" by simp
  have 4: "valid (heap ?b) (own (Obj ?ps) ''children'')" by (simp add: init_def)
  have 5: "valid (heap ?b) (own (Obj ?ps) ''updater'')" by (simp add: init_def)
  have el: "elements (heap ?b) (own (Obj ?ps) ''children'') = Some [Ref 5, JStr ''text'']"
    by (simp add: elements_def init_def)
  then have 6: "\<not> sequence_valued (heap ?b) (own (Obj ?ps) ''children'') \<or>
         (\<exists>xs. elements (heap ?b) (own (Obj ?ps) ''children'') = Some xs \<and> Null \<notin> set xs)"
    by simp
  have 8: "6 = length (heap ?b)" by (simp add: init_def)
  have cu: "can_update (heap ?b) (own (Obj ?ps) ''updater'') = JBool True"
    by (simp add: can_update_def child_of_def cell_at_def init_def)
  from outbound_message[OF 1 2 3 7 4 5 6 refl 8, unfolded el cu]
  obtain msg where m: "heap ?b' ! 6 = Obj msg" "msg ''id'' = Some (JStr ''a'')"
    "msg ''canUpdate'' = Some (JBool True)" "msg ''type'' = None" "msg ''updater'' = None"
    "\<forall>k. k \<notin> {''id'', ''canUpdate'', ''type'', ''updater'', ''children''} \<longrightarrow> msg k = ?ps k"
    "\<exists>ys. msg ''children'' = Some (Ref 7) \<and> heap ?b' ! 7 = Arr ys \<and> length ys = 2"
    by (auto simp: eval_nat_numeral)
  from m(7) obtain ys where y: "msg ''children'' = Some (Ref 7)" "heap ?b' ! 7 = Arr ys" "length ys = 2"
    by blast
  have n: "msg ''name'' = Some (JStr ''Foo'')" "msg ''props'' = Some (Ref 2)"
    using m(6) by simp_all
  show ?thesis
    using m(1-5) n y by (intro exI[of _ msg] exI[of _ ys]) simp
qed

text \<open>
  The copy is made by assignment, key by key, so an own property \<^verbatim>\<open>__proto__\<close> of the
  snapshot goes to the inherited setter of the new object and is not copied: with a number
  for value the setter ignores it, and the message has no such property.
\<close>

lemma assign_own_proto:
  "fst (assign (Ref 0) (init [Obj [''__proto__'' \<mapsto> JNum 1, ''name'' \<mapsto> JStr ''Foo'']] rnd))
     = Return (Ref 1) \<and>
   (case heap (snd (assign (Ref 0)
        (init [Obj [''__proto__'' \<mapsto> JNum 1, ''name'' \<mapsto> JStr ''Foo'']] rnd))) ! 1 of
      Obj msg \<Rightarrow> msg ''__proto__'' = None \<and> msg ''name'' = Some (JStr ''Foo'')
    | _ \<Rightarrow> False)"
  by (simp add: assign_def alloc_def enumerable_def cell_at_def init_def)

lemma preserves_message_steps:
  assumes "\<And>v. preserves P (getId v)" "\<And>c. preserves P (alloc c)"
    and "\<And>obj k. preserves P (prop_of obj k)"
    and "\<And>k v. preserves P (assign_prop send k v)" "\<And>k. preserves P (delete_prop send k)"
    and "preserves P (emit ev send)"
  shows "preserves P (andThen (rewrite_children send) (\<lambda>_. finish_message ev i send))"
  unfolding rewrite_children_def finish_message_def
  by (intro preserves_andThen preserves_and_also preserves_if preserves_call_map preserves_ret assms)

lemma prefix_kept_steps:
  assumes "length h \<le> a"
  shows "preserves (prefix_kept h) (andThen (rewrite_children (Ref a)) (\<lambda>_. finish_message ev i (Ref a)))"
proof (rule preserves_message_steps)
  show "preserves (prefix_kept h) (getId v)" for v
    by (auto simp: preserves_def prefix_kept_def getId_cases split: option.splits)
  show "preserves (prefix_kept h) (alloc c)" for c
    by (auto simp: preserves_def prefix_kept_def alloc_def)
  show "preserves (prefix_kept h) (prop_of obj k)" for obj k
    by (auto simp: preserves_def prefix_kept_def prop_of_def)
  show "preserves (prefix_kept h) (assign_prop (Ref a) k v)" for k v
    using assms
    by (auto simp: preserves_def prefix_kept_def assign_prop_def split: cell.splits option.splits)
  show "preserves (prefix_kept h) (delete_prop (Ref a) k)" for k
    using assms
    by (auto simp: preserves_def prefix_kept_def delete_prop_def split: cell.splits)
  show "preserves (prefix_kept h) (emit ev (Ref a))"
    by (auto simp: preserves_def prefix_kept_def emit_def)
qed

lemma nodes_kept_steps:
  "preserves (\<lambda>b. nodes b i = Some d) (andThen (rewrite_children send) (\<lambda>_. finish_message ev j send))"
proof (rule preserves_message_steps)
  show "preserves (\<lambda>b. nodes b i = Some d) (getId v)" for v
    by (auto simp: preserves_def getId_cases split: option.splits)
  show "preserves (\<lambda>b. nodes b i = Some d) (assign_prop send k v)" for k v
    by (auto simp: preserves_def assign_prop_def split: prod.splits)
  show "preserves (\<lambda>b. nodes b i = Some d) (delete_prop send k)" for k
    by (auto simp: preserves_def delete_prop_def split: jsval.splits cell.splits)
qed (auto simp: preserves_def alloc_def prop_of_def emit_def)

lemma store_and_send_keeps:
  assumes "fst (getId c b) = Return i"
  shows "prefix_kept (heap b) (snd (store_and_send ev c d b)) \<and>
         nodes (snd (store_and_send ev c d b)) i = Some d"
proof -
  define b1 where "b1 = snd (getId c b)"
  have g1: "getId c b = (Return i, b1)" using assms by (simp add: b1_def prod_eq_iff)
  have hb1: "heap b1 = heap b" using grown_getId[of b c] by (simp add: b1_def grown_def)
  define b2 where "b2 = b1\<lparr>nodes := (nodes b1)(i \<mapsto> d)\<rparr>"
  have hb2: "heap b2 = heap b" by (simp add: b2_def hb1)
  have eq: "store_and_send ev c d b =
              andThen (assign d)
                (\<lambda>send. andThen (rewrite_children send) (\<lambda>_. finish_message ev i send)) b2"
    unfolding b2_def by (rule store_and_send_prefix[OF g1])
  from assign_cases[of d b2] show ?thesis
  proof
    assume "assign d b2 = (Beyond, b2)"
    then show ?thesis
      unfolding eq by (simp add: andThen_def prefix_kept_def hb2) (simp add: b2_def)
  next
    assume "\<exists>ps. assign d b2 = (Return (Ref (length (heap b2))), b2\<lparr>heap := heap b2 @ [Obj ps]\<rparr>)"
    then obtain ps where
      a: "assign d b2 = (Return (Ref (length (heap b2))), b2\<lparr>heap := heap b2 @ [Obj ps]\<rparr>)"
      by blast
    let ?b3 = "b2\<lparr>heap := heap b2 @ [Obj ps]\<rparr>"
    have p: "prefix_kept (heap b) ?b3" by (simp add: prefix_kept_def hb2)
    have n: "nodes ?b3 i = Some d" by (simp add: b2_def)
    have "length (heap b) \<le> length (heap b2)" by (simp add: hb2)
    from prefix_kept_steps[OF this, of ev i] p
    have 1: "prefix_kept (heap b) (snd (store_and_send ev c d b))"
      unfolding eq by (simp add: preserves_def andThen_def[of "assign d"] a)
    from nodes_kept_steps[of i d "Ref (length (heap b2))" ev i] n
    have 2: "nodes (snd (store_and_send ev c d b)) i = Some d"
      unfolding eq by (simp add: preserves_def andThen_def[of "assign d"] a)
    from 1 2 show ?thesis by simp
  qed
qed

lemma child_of_prefix:
  assumes "prefix_kept h b'" "valid h d"
  shows "child_of (heap b') d k = child_of h d k"
proof (cases d)
  case (Ref a)
  then have a: "a < length h" using assms(2) by simp
  have "heap b' ! a = take (length h) (heap b') ! a" using a by simp
  then have "heap b' ! a = h ! a" using assms(1) by (simp add: prefix_kept_def)
  then show ?thesis using a assms(1) Ref by (simp add: child_of_def cell_at_def prefix_kept_def)
qed (simp_all add: child_of_def)

text \<open>
  C10. \<^verbatim>\<open>onMounted\<close> and \<^verbatim>\<open>onUpdated\<close> store the snapshot they were given and change no
  object that was on the heap before the call (they only add the copy and the array of
  identifiers): the stored snapshot reads the same \<^verbatim>\<open>type\<close>, \<^verbatim>\<open>updater\<close> and \<^verbatim>\<open>children\<close>
  after the call as before, also when the call ends in an exception.
\<close>

theorem stored_snapshot_untouched:
  assumes "m = onMounted \<or> m = onUpdated"
    and "fst (getId c b) = Return i"
    and "valid (heap b) d"
  shows "nodes (snd (m c d b)) i = Some d \<and>
         length (heap b) \<le> length (heap (snd (m c d b))) \<and>
         take (length (heap b)) (heap (snd (m c d b))) = heap b \<and>
         child_of (heap (snd (m c d b))) d ''type'' = child_of (heap b) d ''type'' \<and>
         child_of (heap (snd (m c d b))) d ''updater'' = child_of (heap b) d ''updater'' \<and>
         child_of (heap (snd (m c d b))) d ''children'' = child_of (heap b) d ''children''"
proof -
  have "\<exists>ev. m = store_and_send ev"
    using assms(1) by (auto simp: onMounted_def onUpdated_def fun_eq_iff)
  then obtain ev where m: "m = store_and_send ev" ..
  from store_and_send_keeps[OF assms(2), of ev d]
  have k: "prefix_kept (heap b) (snd (m c d b))" and n: "nodes (snd (m c d b)) i = Some d"
    by (simp_all add: m)
  from k n child_of_prefix[OF k assms(3)] show ?thesis by (simp add: prefix_kept_def)
qed

theorem stored_snapshot_untouched_witness:
  "nodes (snd (onMounted (Ref 0) (Ref 1)
      (init [Obj Map.empty, Obj [''type'' \<mapsto> JStr ''T'', ''children'' \<mapsto> Ref 2], Arr [Null]]
         (\<lambda>n. ''a'')))) (JStr ''a'') = Some (Ref 1) \<and>
   fst (onMounted (Ref 0) (Ref 1)
      (init [Obj Map.empty, Obj [''type'' \<mapsto> JStr ''T'', ''children'' \<mapsto> Ref 2], Arr [Null]]
         (\<lambda>n. ''a''))) = Throw TypeError \<and>
   take 3 (heap (snd (onMounted (Ref 0) (Ref 1)
      (init [Obj Map.empty, Obj [''type'' \<mapsto> JStr ''T'', ''children'' \<mapsto> Ref 2], Arr [Null]]
         (\<lambda>n. ''a''))))) =
     [Obj Map.empty, Obj [''type'' \<mapsto> JStr ''T'', ''children'' \<mapsto> Ref 2], Arr [Null]] \<and>
   child_of (heap (snd (onMounted (Ref 0) (Ref 1)
      (init [Obj Map.empty, Obj [''type'' \<mapsto> JStr ''T'', ''children'' \<mapsto> Ref 2], Arr [Null]]
         (\<lambda>n. ''a''))))) (Ref 1) ''type'' = JStr ''T''"
proof -
  let ?h = "[Obj Map.empty, Obj [''type'' \<mapsto> JStr ''T'', ''children'' \<mapsto> Ref 2], Arr [Null]]"
  let ?b = "init ?h (\<lambda>n. ''a'')"
  have 1: "onMounted = onMounted \<or> onMounted = onUpdated" by simp
  have 2: "fst (getId (Ref 0) ?b) = Return (JStr ''a'')" by (simp add: getId_cases init_def)
  have 3: "valid (heap ?b) (Ref 1)" by (simp add: init_def)
  have 4: "heap ?b = ?h" "length ?h = 3" by (simp_all add: init_def)
  have 5: "child_of ?h (Ref 1) ''type'' = JStr ''T''" by (simp add: child_of_def cell_at_def)
  have 6: "fst (onMounted (Ref 0) (Ref 1) ?b) = Throw TypeError"
    by (simp add: meths getId_cases prims)
  note t = stored_snapshot_untouched[OF 1 2 3]
  have a: "nodes (snd (onMounted (Ref 0) (Ref 1) ?b)) (JStr ''a'') = Some (Ref 1)"
    using t by blast
  have "take (length (heap ?b)) (heap (snd (onMounted (Ref 0) (Ref 1) ?b))) = heap ?b"
    using t by blast
  then have b: "take 3 (heap (snd (onMounted (Ref 0) (Ref 1) ?b))) = ?h"
    by (simp only: 4)
  have "child_of (heap (snd (onMounted (Ref 0) (Ref 1) ?b))) (Ref 1) ''type''
          = child_of (heap ?b) (Ref 1) ''type''"
    using t by blast
  then have c: "child_of (heap (snd (onMounted (Ref 0) (Ref 1) ?b))) (Ref 1) ''type'' = JStr ''T''"
    by (simp only: 4 5)
  from a 6 b c show ?thesis by blast
qed

section \<open>Mutation commands\<close>








text \<open>
  Two commands that are turned down and write nothing: the path runs into \<^verbatim>\<open>null\<close> before
  its last key, and the last key is \<^verbatim>\<open>__proto__\<close> with a number for value.
\<close>

lemma setIn_writes_nothing:
  "setIn [Obj [''a'' \<mapsto> Null]] (Ref 0) [''a'', ''b''] v = (Return False, [Obj [''a'' \<mapsto> Null]]) \<and>
   setIn [Obj Map.empty] (Ref 0) [''__proto__''] (JNum 5) = (Return True, [Obj Map.empty])"
  by (simp add: setIn_def cell_at_def names)

section \<open>Identifiers that resolve to nothing\<close>

text \<open>
  C7. The claim: an operation on an identifier that cannot be resolved logs or drops the
  request and throws nothing. \<^verbatim>\<open>_setProps\<close>, \<^verbatim>\<open>_setState\<close> and \<^verbatim>\<open>_setContext\<close> read
  \<^verbatim>\<open>data.props\<close> (\<^verbatim>\<open>state\<close>, \<^verbatim>\<open>context\<close>) of whatever \<^verbatim>\<open>nodes.get(id)\<close> gives: on a Backend
  that knows no id they throw a TypeError, for every id, path and value. \<^verbatim>\<open>highlight\<close> reads
  \<^verbatim>\<open>data.name\<close> once the adapter has found a native node: for a root that was added and never
  mounted, \<^verbatim>\<open>comps\<close> resolves the id, \<^verbatim>\<open>nodes\<close> does not, and \<^verbatim>\<open>highlight\<close> throws.
\<close>

theorem setProps_unknown_id_throws:
  "setProps ident path v (init h rnd) = (Throw TypeError, init h rnd) \<and>
   setState ident path v (init h rnd) = (Throw TypeError, init h rnd) \<and>
   setContext ident path v (init h rnd) = (Throw TypeError, init h rnd) \<and>
   fst (highlight (JStr ''a'')
     (run [AddRoot (Ref 0),
           SetReactInternals \<lparr>getNativeFromReactElement = (\<lambda>c. Ref 1),
                               getReactElementFromNative = (\<lambda>n. Null)\<rparr>]
        (init [Obj Map.empty, Obj Map.empty] (\<lambda>n. ''a'')))) = Throw TypeError"
  by (simp add: meths getId_cases prims)

end
